theory Spec2Isabelle
  imports Complex_Main
begin

section \<open>Keypoint utilities of \<^verbatim>\<open>lib/pymafx/utils/keypoints.py\<close>\<close>

text \<open>
  Arrays are nested lists: an array of shape \<open>(N, C, K)\<close> is a list of \<open>N\<close> instances,
  each a list of \<open>C\<close> channel rows of \<open>K\<close> joints. An entry of a floating-point array is
  the real number the float stands for; a computed value is of type \<open>npfloat\<close>, which
  adds the IEEE special values. Where a discrete outcome (a comparison, a floor, an
  index) depends on computed numbers, the rounding of the operations is part of the
  model: concretely (\<open>round_to\<close>), or as a parameter where a library routine computes the
  number. The closed form of \<^verbatim>\<open>compute_oks\<close> is stated in exact arithmetic.
  An exception of the source is a value \<open>Inl e\<close>.
\<close>

datatype error = NameError string | ValueError | IndexError | AssertionError | AttributeError

type_synonym array2 = "real list list"
type_synonym array3 = "real list list list"
type_synonym array4 = "real list list list list"

subsection \<open>Floating-point values with the IEEE special values\<close>

text \<open>
  numpy does not raise on a floating-point division by zero: it warns and yields
  \<^verbatim>\<open>inf\<close>, \<^verbatim>\<open>-inf\<close> or \<^verbatim>\<open>nan\<close>, which then flow through the rest of the
  computation. The operations below are the exact ones on finite values (no rounding, no
  overflow, one zero whose sign is positive) and follow IEEE 754 on the special values;
  a floating-point operation is an exact operation followed by a rounding.
\<close>

datatype npfloat = Fin real | PInf | NInf | NaN

fun np_neg :: "npfloat \<Rightarrow> npfloat" where
  "np_neg (Fin a) = Fin (- a)"
| "np_neg PInf = NInf"
| "np_neg NInf = PInf"
| "np_neg NaN = NaN"

fun np_add :: "npfloat \<Rightarrow> npfloat \<Rightarrow> npfloat" where
  "np_add NaN y = NaN"
| "np_add x NaN = NaN"
| "np_add (Fin a) (Fin b) = Fin (a + b)"
| "np_add PInf NInf = NaN"
| "np_add NInf PInf = NaN"
| "np_add PInf y = PInf"
| "np_add NInf y = NInf"
| "np_add (Fin a) PInf = PInf"
| "np_add (Fin a) NInf = NInf"

definition np_sub :: "npfloat \<Rightarrow> npfloat \<Rightarrow> npfloat" where
  "np_sub x y = np_add x (np_neg y)"

text \<open>The sign of a product or quotient with an infinite operand.\<close>

definition signed_inf :: "bool \<Rightarrow> npfloat" where
  "signed_inf positive = (if positive then PInf else NInf)"

fun np_mul :: "npfloat \<Rightarrow> npfloat \<Rightarrow> npfloat" where
  "np_mul NaN y = NaN"
| "np_mul x NaN = NaN"
| "np_mul (Fin a) (Fin b) = Fin (a * b)"
| "np_mul (Fin a) PInf = (if a = 0 then NaN else signed_inf (0 < a))"
| "np_mul (Fin a) NInf = (if a = 0 then NaN else signed_inf (a < 0))"
| "np_mul PInf (Fin b) = (if b = 0 then NaN else signed_inf (0 < b))"
| "np_mul NInf (Fin b) = (if b = 0 then NaN else signed_inf (b < 0))"
| "np_mul PInf PInf = PInf"
| "np_mul PInf NInf = NInf"
| "np_mul NInf PInf = NInf"
| "np_mul NInf NInf = PInf"

fun np_div :: "npfloat \<Rightarrow> npfloat \<Rightarrow> npfloat" where
  "np_div NaN y = NaN"
| "np_div x NaN = NaN"
| "np_div (Fin a) (Fin b) =
     (if b \<noteq> 0 then Fin (a / b) else if a = 0 then NaN else signed_inf (0 < a))"
| "np_div (Fin a) PInf = Fin 0"
| "np_div (Fin a) NInf = Fin 0"
| "np_div PInf (Fin b) = signed_inf (0 \<le> b)"
| "np_div NInf (Fin b) = signed_inf (b < 0)"
| "np_div PInf y = NaN"
| "np_div NInf y = NaN"

fun np_floor :: "npfloat \<Rightarrow> npfloat" where
  "np_floor (Fin a) = Fin (of_int \<lfloor>a\<rfloor>)"
| "np_floor x = x"

fun np_exp :: "npfloat \<Rightarrow> npfloat" where
  "np_exp (Fin a) = Fin (exp a)"
| "np_exp PInf = PInf"
| "np_exp NInf = Fin 0"
| "np_exp NaN = NaN"

text \<open>Comparisons: every comparison with \<^verbatim>\<open>nan\<close> is false.\<close>

fun np_less :: "npfloat \<Rightarrow> npfloat \<Rightarrow> bool" where
  "np_less NaN y = False"
| "np_less x NaN = False"
| "np_less (Fin a) (Fin b) = (a < b)"
| "np_less PInf y = False"
| "np_less x NInf = False"
| "np_less NInf y = True"
| "np_less (Fin a) PInf = True"

fun np_eq :: "npfloat \<Rightarrow> npfloat \<Rightarrow> bool" where
  "np_eq NaN y = False"
| "np_eq x NaN = False"
| "np_eq x y = (x = y)"

definition np_le :: "npfloat \<Rightarrow> npfloat \<Rightarrow> bool" where
  "np_le x y = (np_less x y \<or> np_eq x y)"

definition np_ge :: "npfloat \<Rightarrow> npfloat \<Rightarrow> bool" where
  "np_ge x y = np_le y x"

text \<open>A rounding \<open>rnd\<close> of the finite values, applied to the result of an exact operation.\<close>

definition rounded :: "(real \<Rightarrow> npfloat) \<Rightarrow> npfloat \<Rightarrow> npfloat" where
  "rounded rnd v = (case v of Fin r \<Rightarrow> rnd r | PInf \<Rightarrow> PInf | NInf \<Rightarrow> NInf | NaN \<Rightarrow> NaN)"

text \<open>\<^verbatim>\<open>np.sum\<close> over a row.\<close>

definition np_sum :: "npfloat list \<Rightarrow> npfloat" where
  "np_sum xs = foldr np_add xs (Fin 0)"

text \<open>
  Elementwise operation on two rows under numpy's broadcasting rule for the last axis:
  equal lengths, or one of the two has length 1; anything else raises \<^verbatim>\<open>ValueError\<close>.
\<close>

definition broadcast2 :: "('a \<Rightarrow> 'b \<Rightarrow> 'c) \<Rightarrow> 'a list \<Rightarrow> 'b list \<Rightarrow> error + 'c list" where
  "broadcast2 f xs ys =
     (if length xs = length ys then Inr (map2 f xs ys)
      else if length xs = 1 then Inr (map (f (hd xs)) ys)
      else if length ys = 1 then Inr (map (\<lambda>x. f x (hd ys)) xs)
      else Inl ValueError)"

text \<open>A region of interest, one row \<open>(x1, y1, x2, y2)\<close> of an \<open>(N, 4)\<close> array.\<close>

type_synonym roi = "real \<times> real \<times> real \<times> real"

subsection \<open>Rounding to a binary floating-point format\<close>

text \<open>
  A format has \<open>prec\<close> significand bits (the hidden bit included) and the exponent range
  \<open>emin .. emax\<close>. \<open>round_to\<close> is the IEEE 754 rounding to nearest, ties to even: the
  result is a multiple of the unit in the last place of the argument's binade (of the
  lowest binade for subnormal magnitudes), and a result beyond the largest finite value
  is an infinity. \<^verbatim>\<open>astype(np.float32)\<close> is \<open>round_to binary32\<close>; an arithmetic operation
  on arrays of a format is the exact operation followed by \<open>to_format\<close> of that format.
\<close>

record fmt =
  prec :: nat
  emin :: int
  emax :: int

definition binary32 :: fmt where
  "binary32 = \<lparr>prec = 24, emin = - 126, emax = 127\<rparr>"

definition binary64 :: fmt where
  "binary64 = \<lparr>prec = 53, emin = - 1022, emax = 1023\<rparr>"

definition pow2 :: "int \<Rightarrow> real" where
  "pow2 k = (if 0 \<le> k then 2 ^ nat k else 1 / 2 ^ nat (- k))"

definition round_half_even :: "real \<Rightarrow> int" where
  "round_half_even x =
     (let n = \<lfloor>x\<rfloor>; d = x - of_int n
      in if d < 1 / 2 then n else if 1 / 2 < d then n + 1 else if even n then n else n + 1)"

definition binade :: "real \<Rightarrow> int" where
  "binade x = \<lfloor>log 2 \<bar>x\<bar>\<rfloor>"

definition ulp :: "fmt \<Rightarrow> real \<Rightarrow> real" where
  "ulp f x = pow2 (max (binade x) (emin f) - int (prec f) + 1)"

definition round_to :: "fmt \<Rightarrow> real \<Rightarrow> npfloat" where
  "round_to f x =
     (if x = 0 then Fin 0
      else let r = of_int (round_half_even (x / ulp f x)) * ulp f x
           in if pow2 (emax f + 1) \<le> \<bar>r\<bar> then signed_inf (0 < x) else Fin r)"

definition to_format :: "fmt \<Rightarrow> npfloat \<Rightarrow> npfloat" where
  "to_format f v = rounded (round_to f) v"

subsection \<open>Keypoint schema\<close>

definition get_keypoints :: "string list \<times> (string \<times> string) list" where
  "get_keypoints =
    ([''nose'', ''left_eye'', ''right_eye'', ''left_ear'', ''right_ear'', ''left_shoulder'',
      ''right_shoulder'', ''left_elbow'', ''right_elbow'', ''left_wrist'', ''right_wrist'',
      ''left_hip'', ''right_hip'', ''left_knee'', ''right_knee'', ''left_ankle'',
      ''right_ankle''],
     [(''left_eye'', ''right_eye''), (''left_ear'', ''right_ear''),
      (''left_shoulder'', ''right_shoulder''), (''left_elbow'', ''right_elbow''),
      (''left_wrist'', ''right_wrist''), (''left_hip'', ''right_hip''),
      (''left_knee'', ''right_knee''), (''left_ankle'', ''right_ankle'')])"

definition get_person_class_index :: nat where
  "get_person_class_index = 1"

subsection \<open>flip_keypoints\<close>

text \<open>\<^verbatim>\<open>list.index\<close>: the first position of a name, \<^verbatim>\<open>ValueError\<close> when it is absent.\<close>

fun index_of :: "'a list \<Rightarrow> 'a \<Rightarrow> error + nat" where
  "index_of [] a = Inl ValueError"
| "index_of (x # xs) a =
     (if x = a then Inr 0
      else case index_of xs a of Inl e \<Rightarrow> Inl e | Inr i \<Rightarrow> Inr (Suc i))"

text \<open>
  The function works on an array of any dtype. The elements are of an arbitrary type
  \<open>'a\<close>, and the arithmetic of the dtype is a parameter: its subtraction (rounded for
  floating point, wrapping for fixed-width integers), its one and zero, and the test
  \<^verbatim>\<open>== 0\<close>. The width is taken in the dtype of the array.
\<close>

record 'a arith =
  a_sub :: "'a \<Rightarrow> 'a \<Rightarrow> 'a"
  a_one :: 'a
  a_zero :: 'a
  a_is_zero :: "'a \<Rightarrow> bool"

text \<open>The arithmetic of the integers, and of floating point with a given rounding.\<close>

definition int_arith :: "int arith" where
  "int_arith = \<lparr>a_sub = (\<lambda>x y. x - y), a_one = 1, a_zero = 0, a_is_zero = (\<lambda>v. v = 0)\<rparr>"

definition float_arith :: "(real \<Rightarrow> npfloat) \<Rightarrow> npfloat arith" where
  "float_arith rnd =
     \<lparr>a_sub = (\<lambda>x y. rounded rnd (np_sub x y)), a_one = Fin 1, a_zero = Fin 0,
      a_is_zero = (\<lambda>v. np_eq v (Fin 0))\<rparr>"

text \<open>Whether joint index \<open>j\<close> is inside the last axis of an \<open>(N, C, K)\<close> array.\<close>

definition joint_in_range :: "'a list list list \<Rightarrow> nat \<Rightarrow> bool" where
  "joint_in_range a j = list_all (list_all (\<lambda>row. j < length row)) a"

text \<open>\<^verbatim>\<open>dst[:, :, d] = src[:, :, s]\<close>\<close>

definition assign_joint :: "'a list list list \<Rightarrow> nat \<Rightarrow> 'a list list list \<Rightarrow> nat \<Rightarrow> 'a list list list" where
  "assign_joint dst d src s =
     map2 (\<lambda>di si. map2 (\<lambda>drow srow. drow[d := srow ! s]) di si) dst src"

text \<open>
  The loop over \<^verbatim>\<open>keypoint_flip_map.items()\<close> (a dict in insertion order, here an
  association list): every pair reads the caller's array and writes the copy.
\<close>

fun swap_pairs ::
    "string list \<Rightarrow> (string \<times> string) list \<Rightarrow> 'a list list list \<Rightarrow> 'a list list list
       \<Rightarrow> error + 'a list list list" where
  "swap_pairs keypoints [] keypoint_coords flipped_kps = Inr flipped_kps"
| "swap_pairs keypoints ((lkp, rkp) # rest) keypoint_coords flipped_kps =
     (case index_of keypoints lkp of Inl e \<Rightarrow> Inl e | Inr lid \<Rightarrow>
       (case index_of keypoints rkp of Inl e \<Rightarrow> Inl e | Inr rid \<Rightarrow>
          if \<not> joint_in_range keypoint_coords rid \<or> \<not> joint_in_range keypoint_coords lid
          then Inl IndexError
          else swap_pairs keypoints rest keypoint_coords
                 (assign_joint (assign_joint flipped_kps lid keypoint_coords rid)
                    rid keypoint_coords lid)))"

text \<open>
  \<^verbatim>\<open>width - x - 1\<close> in the arithmetic of the array: two subtractions, each with the
  rounding or wrap-around of the dtype.
\<close>

definition mirror :: "'a arith \<Rightarrow> 'a \<Rightarrow> 'a \<Rightarrow> 'a" where
  "mirror ar width x = a_sub ar (a_sub ar width x) (a_one ar)"

text \<open>\<^verbatim>\<open>flipped_kps[:, 0, :] = width - flipped_kps[:, 0, :] - 1\<close>\<close>

definition mirror_x :: "'a arith \<Rightarrow> 'a \<Rightarrow> 'a list list list \<Rightarrow> error + 'a list list list" where
  "mirror_x ar width a =
     (if list_all (\<lambda>inst. 0 < length inst) a
      then Inr (map (\<lambda>inst. inst[0 := map (mirror ar width) (inst ! 0)]) a)
      else Inl IndexError)"

text \<open>
  \<^verbatim>\<open>inds = np.where(flipped_kps[:, 2, :] == 0); flipped_kps[inds[0], 0, inds[1]] = 0\<close>
\<close>

definition zero_invisible :: "'a arith \<Rightarrow> 'a list list list \<Rightarrow> error + 'a list list list" where
  "zero_invisible ar a =
     (if list_all (\<lambda>inst. 2 < length inst) a
      then Inr (map (\<lambda>inst. inst[0 := map2 (\<lambda>x v. if a_is_zero ar v then a_zero ar else x)
                                          (inst ! 0) (inst ! 2)]) a)
      else Inl IndexError)"

definition flip_keypoints ::
    "'a arith \<Rightarrow> string list \<Rightarrow> (string \<times> string) list \<Rightarrow> 'a list list list \<Rightarrow> 'a
       \<Rightarrow> error + 'a list list list" where
  "flip_keypoints ar keypoints keypoint_flip_map keypoint_coords width =
     (case swap_pairs keypoints keypoint_flip_map keypoint_coords keypoint_coords of
        Inl e \<Rightarrow> Inl e
      | Inr swapped \<Rightarrow>
          (case mirror_x ar width swapped of
             Inl e \<Rightarrow> Inl e
           | Inr mirrored \<Rightarrow> zero_invisible ar mirrored))"

text \<open>
  A flip map pairs joints: no name occurs twice among its keys and values, and every
  name is in the schema. The COCO map of \<open>get_keypoints\<close> is of this kind.
\<close>

definition pairs_disjoint :: "string list \<Rightarrow> (string \<times> string) list \<Rightarrow> bool" where
  "pairs_disjoint keypoints keypoint_flip_map =
     (distinct (map fst keypoint_flip_map @ map snd keypoint_flip_map) \<and>
      list_all (\<lambda>name. name \<in> set keypoints) (map fst keypoint_flip_map @ map snd keypoint_flip_map))"

text \<open>
  The loop above, run on the joint indices themselves, yields for every slot the joint
  it is filled from (\<open>slot_sources\<close>).
\<close>

fun resolve_pairs :: "string list \<Rightarrow> (string \<times> string) list \<Rightarrow> error + (nat \<times> nat) list" where
  "resolve_pairs keypoints [] = Inr []"
| "resolve_pairs keypoints ((lkp, rkp) # rest) =
     (case index_of keypoints lkp of Inl e \<Rightarrow> Inl e | Inr lid \<Rightarrow>
       (case index_of keypoints rkp of Inl e \<Rightarrow> Inl e | Inr rid \<Rightarrow>
         (case resolve_pairs keypoints rest of Inl e \<Rightarrow> Inl e | Inr ps \<Rightarrow> Inr ((lid, rid) # ps))))"

fun swap_ids :: "(nat \<times> nat) list \<Rightarrow> 'a list \<Rightarrow> 'a list \<Rightarrow> 'a list" where
  "swap_ids [] orig flipped = flipped"
| "swap_ids ((lid, rid) # ps) orig flipped =
     swap_ids ps orig (flipped[lid := orig ! rid, rid := orig ! lid])"

definition slot_sources :: "(nat \<times> nat) list \<Rightarrow> nat \<Rightarrow> nat list" where
  "slot_sources ps K = swap_ids ps [0..<K] [0..<K]"

text \<open>An \<open>(N, C, K)\<close> array with at least the three channels x, y and visibility.\<close>

definition shape3 :: "nat \<Rightarrow> 'a list list list \<Rightarrow> bool" where
  "shape3 K a = list_all (\<lambda>inst. 2 < length inst \<and> list_all (\<lambda>row. length row = K) inst) a"

text \<open>One flip of an instance, as a selection of the joints followed by the mirror.\<close>

definition flip_inst :: "'a arith \<Rightarrow> nat list \<Rightarrow> 'a \<Rightarrow> 'a list list \<Rightarrow> 'a list list" where
  "flip_inst ar src width inst =
     (let p = map (\<lambda>row. map ((!) row) src) inst;
          m = p[0 := map (mirror ar width) (p ! 0)]
      in m[0 := map2 (\<lambda>x v. if a_is_zero ar v then a_zero ar else x) (m ! 0) (m ! 2)])"

subsection \<open>compute_oks and nms_oks\<close>

definition sigmas :: "real list" where
  "sigmas = map (\<lambda>s. s / 10)
     [26 / 100, 25 / 100, 25 / 100, 35 / 100, 35 / 100, 79 / 100, 79 / 100, 72 / 100, 72 / 100,
      62 / 100, 62 / 100, 107 / 100, 107 / 100, 87 / 100, 87 / 100, 89 / 100, 89 / 100]"

definition vars :: "real list" where
  "vars = map (\<lambda>s. (s * 2)\<^sup>2) sigmas"

text \<open>\<^verbatim>\<open>np.spacing(1)\<close>, the distance from 1.0 to the next double.\<close>

definition np_spacing_1 :: real where
  "np_spacing_1 = 1 / 2 ^ 52"

text \<open>Channel \<open>c\<close> of a \<open>(C, K)\<close> instance; \<^verbatim>\<open>IndexError\<close> outside.\<close>

definition channel :: "array2 \<Rightarrow> nat \<Rightarrow> error + real list" where
  "channel inst c = (if c < length inst then Inr (inst ! c) else Inl IndexError)"

text \<open>
  The body of \<^verbatim>\<open>compute_oks\<close> for one candidate (one row of the first axis of
  \<^verbatim>\<open>dst_keypoints\<close>): the operations are elementwise over the joints, with broadcasting.
\<close>

definition oks_row :: "real list \<Rightarrow> real list \<Rightarrow> real \<Rightarrow> real list \<Rightarrow> real list \<Rightarrow> error + npfloat" where
  "oks_row src_x src_y src_area dst_x dst_y =
     (case broadcast2 (\<lambda>d s. d - s) dst_x src_x of Inl e \<Rightarrow> Inl e | Inr dx \<Rightarrow>
       (case broadcast2 (\<lambda>d s. d - s) dst_y src_y of Inl e \<Rightarrow> Inl e | Inr dy \<Rightarrow>
         (case broadcast2 (+) (map (\<lambda>d. d\<^sup>2) dx) (map (\<lambda>d. d\<^sup>2) dy) of Inl e \<Rightarrow> Inl e | Inr sq \<Rightarrow>
           (case broadcast2 (/) sq vars of Inl e \<Rightarrow> Inl e | Inr q \<Rightarrow>
              (let e = map (\<lambda>v. np_div (np_div (Fin v) (Fin (src_area + np_spacing_1))) (Fin 2)) q
               in Inr (np_div (np_sum (map (\<lambda>v. np_exp (np_neg v)) e)) (Fin (real (length e)))))))))"

text \<open>All candidates in order; the first exception wins.\<close>

fun collect :: "(error + 'a) list \<Rightarrow> error + 'a list" where
  "collect [] = Inr []"
| "collect (r # rs) =
     (case r of Inl e \<Rightarrow> Inl e | Inr v \<Rightarrow>
       (case collect rs of Inl e \<Rightarrow> Inl e | Inr vs \<Rightarrow> Inr (v # vs)))"

definition compute_oks :: "array2 \<Rightarrow> roi \<Rightarrow> array3 \<Rightarrow> roi list \<Rightarrow> error + npfloat list" where
  "compute_oks src_keypoints src_roi dst_keypoints dst_roi =
     (case src_roi of (x1, y1, x2, y2) \<Rightarrow>
       (let src_area = (x2 - x1 + 1) * (y2 - y1 + 1) in
        if \<not> list_all (\<lambda>d. 1 < length d) dst_keypoints then Inl IndexError
        else case channel src_keypoints 0 of Inl e \<Rightarrow> Inl e | Inr src_x \<Rightarrow>
          (case channel src_keypoints 1 of Inl e \<Rightarrow> Inl e | Inr src_y \<Rightarrow>
             collect (map (\<lambda>d. oks_row src_x src_y src_area (d ! 0) (d ! 1)) dst_keypoints))))"

text \<open>
  The definitions above evaluate \<^verbatim>\<open>compute_oks\<close> in exact arithmetic: they give the
  value of the formula, which the floating-point result approximates. An empty candidate
  array carries no joint count in this model, so the shape error that numpy raises for
  it when the joint count does not fit the 17 sigmas is not represented.

  \<^verbatim>\<open>nms_oks\<close> compares computed numbers with a threshold, and the outcome of a
  comparison depends on the rounding (and \<^verbatim>\<open>np.exp\<close> underflows to zero). So the
  floating-point routines it calls are parameters there: \<^verbatim>\<open>np.mean\<close> of a score row,
  \<^verbatim>\<open>argsort\<close>, and \<^verbatim>\<open>compute_oks\<close> as the machine evaluates it.
\<close>

text \<open>\<^verbatim>\<open>np.mean(kp_predictions[:, 2, :], axis=1)\<close>: the mean of the score channel of every instance.\<close>

definition mean_scores :: "(real list \<Rightarrow> npfloat) \<Rightarrow> array3 \<Rightarrow> error + npfloat list" where
  "mean_scores np_mean kp_predictions =
     (if list_all (\<lambda>inst. 2 < length inst) kp_predictions
      then Inr (map (\<lambda>inst. np_mean (inst ! 2)) kp_predictions)
      else Inl IndexError)"

text \<open>The mean in exact arithmetic (\<^verbatim>\<open>nan\<close> for an empty row).\<close>

definition exact_mean :: "real list \<Rightarrow> npfloat" where
  "exact_mean xs = np_div (Fin (sum_list xs)) (Fin (real (length xs)))"

text \<open>
  What \<^verbatim>\<open>argsort\<close> promises: a permutation of the indices along which the scores
  ascend, \<^verbatim>\<open>nan\<close> last. The order among equal scores is the sorting routine's choice
  (numpy's default sort is not stable), so the routine is a parameter of \<^verbatim>\<open>nms_oks\<close>.
\<close>

definition np_sort_le :: "npfloat \<Rightarrow> npfloat \<Rightarrow> bool" where
  "np_sort_le x y = (y = NaN \<or> np_le x y)"

definition is_argsort :: "(npfloat list \<Rightarrow> nat list) \<Rightarrow> npfloat list \<Rightarrow> bool" where
  "is_argsort argsort scores =
     (distinct (argsort scores) \<and> set (argsort scores) = {0..<length scores} \<and>
      sorted_wrt (\<lambda>i j. np_sort_le (scores ! i) (scores ! j)) (argsort scores))"

text \<open>A stable instance: insertion of every index behind the indices of no greater score.\<close>

fun insert_index :: "npfloat list \<Rightarrow> nat \<Rightarrow> nat list \<Rightarrow> nat list" where
  "insert_index scores i [] = [i]"
| "insert_index scores i (j # js) =
     (if np_sort_le (scores ! j) (scores ! i) then j # insert_index scores i js else i # j # js)"

definition stable_argsort :: "npfloat list \<Rightarrow> nat list" where
  "stable_argsort scores = foldl (\<lambda>acc i. insert_index scores i acc) [] [0..<length scores]"

text \<open>\<^verbatim>\<open>a[idx]\<close> with an index array: every index must be inside.\<close>

definition take_rows :: "'a list \<Rightarrow> nat list \<Rightarrow> error + 'a list" where
  "take_rows a idx = (if list_all (\<lambda>i. i < length a) idx then Inr (map ((!) a) idx) else Inl IndexError)"

lemma length_bounded_indices:
  assumes "distinct xs" and "list_all (\<lambda>t. t < m) xs"
  shows "length xs \<le> m"
proof -
  from assms(2) have "set xs \<subseteq> {..<m}" by (auto simp: list_all_iff)
  then have "card (set xs) \<le> card {..<m}" by (intro card_mono) simp_all
  with assms(1) show ?thesis by (simp add: distinct_card)
qed

text \<open>
  The loop. \<open>oks\<close> stands for \<^verbatim>\<open>compute_oks\<close> as the machine evaluates it; the threshold
  is any floating-point value. \<^verbatim>\<open>order[inds + 1]\<close> raises \<^verbatim>\<open>IndexError\<close> for an index
  beyond the pending instances.
\<close>

function nms_loop ::
    "(array2 \<Rightarrow> roi \<Rightarrow> array3 \<Rightarrow> roi list \<Rightarrow> error + npfloat list)
       \<Rightarrow> array3 \<Rightarrow> roi list \<Rightarrow> npfloat \<Rightarrow> nat list \<Rightarrow> nat list \<Rightarrow> error + nat list" where
  "nms_loop oks kp_predictions rois thresh order keep =
     (if order = [] then Inr keep
      else
        (let i = order ! 0 in
         case take_rows kp_predictions [i] of Inl e \<Rightarrow> Inl e | Inr src \<Rightarrow>
          (case take_rows rois [i] of Inl e \<Rightarrow> Inl e | Inr src_roi \<Rightarrow>
            (case take_rows kp_predictions (tl order) of Inl e \<Rightarrow> Inl e | Inr dst \<Rightarrow>
              (case take_rows rois (tl order) of Inl e \<Rightarrow> Inl e | Inr dst_roi \<Rightarrow>
                (case oks (hd src) (hd src_roi) dst dst_roi of Inl e \<Rightarrow> Inl e | Inr ovr \<Rightarrow>
                  (let inds = filter (\<lambda>t. np_le (ovr ! t) thresh) [0..<length ovr]
                   in if \<not> list_all (\<lambda>t. t + 1 < length order) inds then Inl IndexError
                      else nms_loop oks kp_predictions rois thresh (map (\<lambda>t. order ! (t + 1)) inds)
                             (keep @ [i]))))))))"
  by pat_completeness auto
termination
proof (relation "measure (\<lambda>(oks, kp, rois, thresh, order, keep). length order)")
  show "wf (measure (\<lambda>(oks, kp, rois, thresh, order, keep). length order))" by simp
next
  fix oks :: "array2 \<Rightarrow> roi \<Rightarrow> array3 \<Rightarrow> roi list \<Rightarrow> error + npfloat list"
    and kp_predictions :: array3 and rois :: "roi list" and thresh :: npfloat
    and order keep :: "nat list" and i src src_roi dst dst_roi ovr inds
  assume ne: "order \<noteq> []"
    and inds: "inds = filter (\<lambda>t. np_le (ovr ! t) thresh) [0..<length ovr]"
    and inside: "\<not> \<not> list_all (\<lambda>t. t + 1 < length order) inds"
  have "distinct inds" unfolding inds by simp
  moreover from inside have "list_all (\<lambda>t. t < length order - 1) inds"
    by (auto simp: list_all_iff)
  ultimately have "length inds \<le> length order - 1" by (rule length_bounded_indices)
  also have "\<dots> < length order" using ne by (cases order) auto
  finally show "((oks, kp_predictions, rois, thresh, map (\<lambda>t. order ! (t + 1)) inds, keep @ [i]),
                 (oks, kp_predictions, rois, thresh, order, keep))
        \<in> measure (\<lambda>(oks, kp, rois, thresh, order, keep). length order)"
    by simp
qed

declare nms_loop.simps [simp del]

definition nms_oks ::
    "(real list \<Rightarrow> npfloat) \<Rightarrow> (npfloat list \<Rightarrow> nat list)
       \<Rightarrow> (array2 \<Rightarrow> roi \<Rightarrow> array3 \<Rightarrow> roi list \<Rightarrow> error + npfloat list)
       \<Rightarrow> array3 \<Rightarrow> roi list \<Rightarrow> npfloat \<Rightarrow> error + nat list" where
  "nms_oks np_mean argsort oks kp_predictions rois thresh =
     (case mean_scores np_mean kp_predictions of Inl e \<Rightarrow> Inl e | Inr scores \<Rightarrow>
        nms_loop oks kp_predictions rois thresh (rev (argsort scores)) [])"

text \<open>
  What \<^verbatim>\<open>compute_oks\<close> does in any arithmetic: it takes the source pose and ROI and
  returns one similarity for every candidate, which depends on that candidate alone.
  \<open>sim i j\<close> names the similarity it computes for instance \<open>j\<close> against source \<open>i\<close>.
\<close>

definition computes_pairwise ::
    "(array2 \<Rightarrow> roi \<Rightarrow> array3 \<Rightarrow> roi list \<Rightarrow> error + npfloat list)
       \<Rightarrow> array3 \<Rightarrow> roi list \<Rightarrow> (nat \<Rightarrow> nat \<Rightarrow> npfloat) \<Rightarrow> bool" where
  "computes_pairwise oks kp_predictions rois sim =
     (\<forall>i pending. i < length kp_predictions \<and> list_all (\<lambda>j. j < length kp_predictions) pending
        \<longrightarrow> oks (kp_predictions ! i) (rois ! i) (map ((!) kp_predictions) pending)
              (map ((!) rois) pending) = Inr (map (sim i) pending))"

text \<open>
  The suppression as the specification words it: keep the first pending instance, drop the
  pending instances that are too similar to it, and go on with the rest. \<open>similar i j\<close>
  says that the similarity of \<open>j\<close> to the kept \<open>i\<close> is above the threshold.
\<close>

function greedy_suppress :: "(nat \<Rightarrow> nat \<Rightarrow> bool) \<Rightarrow> nat list \<Rightarrow> nat list" where
  "greedy_suppress similar [] = []"
| "greedy_suppress similar (i # pending) =
     i # greedy_suppress similar (filter (\<lambda>j. \<not> similar i j) pending)"
  by pat_completeness auto
termination
  by (relation "measure (\<lambda>(similar, pending). length pending)") (auto simp: less_Suc_eq_le)

text \<open>The similarity of a candidate to a source pose in exact arithmetic.\<close>

definition oks_similarity :: "array2 \<Rightarrow> roi \<Rightarrow> array2 \<Rightarrow> real" where
  "oks_similarity src src_roi cand =
     (case src_roi of (x1, y1, x2, y2) \<Rightarrow>
        (\<Sum>k<17. exp (- ((cand ! 0 ! k - src ! 0 ! k)\<^sup>2 + (cand ! 1 ! k - src ! 1 ! k)\<^sup>2)
                        / (2 * (2 * sigmas ! k)\<^sup>2 * ((x2 - x1 + 1) * (y2 - y1 + 1) + np_spacing_1))))
        / 17)"

subsection \<open>Configuration\<close>

text \<open>
  The functions below read \<^verbatim>\<open>cfg.KRCNN.NUM_KEYPOINTS\<close>, \<^verbatim>\<open>cfg.KRCNN.HEATMAP_SIZE\<close> and
  \<^verbatim>\<open>cfg.KRCNN.INFERENCE_MIN_SIZE\<close>. The configuration object is not part of the module;
  it is a parameter of the model.
\<close>

record krcnn_cfg =
  NUM_KEYPOINTS :: nat
  HEATMAP_SIZE :: int
  INFERENCE_MIN_SIZE :: int

subsection \<open>keypoints_to_heatmap_labels\<close>

text \<open>
  The arithmetic of this function is floating-point arithmetic. The entries of the input
  arrays are the real numbers their floats stand for. \<open>w\<close> is the format of the ROI array
  (\<open>binary32\<close> or \<open>binary64\<close>): the keypoint coordinates are cast to \<^verbatim>\<open>float32\<close> and then
  combined with the ROI array, so every operation of the loop rounds to \<open>w\<close>. The Python
  integer \<^verbatim>\<open>HEATMAP_SIZE\<close> enters the array arithmetic converted to \<open>w\<close>.

  \<^verbatim>\<open>scale = HEATMAP_SIZE / (hi - lo)\<close>: the extent \<open>hi - lo\<close> of the ROI is used as it is.
\<close>

definition roi_scale :: "fmt \<Rightarrow> int \<Rightarrow> real \<Rightarrow> real \<Rightarrow> npfloat" where
  "roi_scale w heatmap_size lo hi =
     to_format w (np_div (to_format w (Fin (of_int heatmap_size))) (to_format w (np_sub (Fin hi) (Fin lo))))"

text \<open>
  One coordinate of one keypoint (the x-lines of the loop body; the y-lines are the same
  with \<open>y1\<close>, \<open>y2\<close>): the cast \<^verbatim>\<open>astype(np.float32)\<close>, the comparison of the cast value
  with the upper edge of the ROI, \<^verbatim>\<open>floor((c - lo) * scale)\<close>, and \<^verbatim>\<open>HEATMAP_SIZE - 1\<close>
  where the comparison held.
\<close>

definition discrete_coord :: "fmt \<Rightarrow> int \<Rightarrow> real \<Rightarrow> real \<Rightarrow> real \<Rightarrow> npfloat" where
  "discrete_coord w heatmap_size c lo hi =
     (let x = round_to binary32 c;
          boundary = np_eq x (Fin hi);
          d = np_floor (to_format w (np_mul (to_format w (np_sub x (Fin lo))) (roi_scale w heatmap_size lo hi)))
      in if boundary then to_format w (Fin (of_int (heatmap_size - 1))) else d)"

text \<open>
  Label and weight of one keypoint \<open>(x, y, vis)\<close> in one ROI: \<^verbatim>\<open>valid_loc\<close>, \<^verbatim>\<open>valid\<close>,
  \<^verbatim>\<open>lin_ind * valid\<close> and \<^verbatim>\<open>valid\<close>. The product with \<^verbatim>\<open>valid\<close> (0 or 1) needs no
  rounding.
\<close>

definition encode_keypoint :: "fmt \<Rightarrow> int \<Rightarrow> roi \<Rightarrow> real \<Rightarrow> real \<Rightarrow> real \<Rightarrow> npfloat \<times> real" where
  "encode_keypoint w heatmap_size r kx ky kvis =
     (case r of (x1, y1, x2, y2) \<Rightarrow>
       (let vis = (0 < kvis);
            x = discrete_coord w heatmap_size kx x1 x2;
            y = discrete_coord w heatmap_size ky y1 y2;
            hs = to_format w (Fin (of_int heatmap_size));
            valid_loc = ((np_ge x (Fin 0) \<and> np_ge y (Fin 0)) \<and> (np_less x hs \<and> np_less y hs));
            valid = (if valid_loc \<and> vis then 1 else 0);
            lin_ind = to_format w (np_add (to_format w (np_mul y hs)) x)
        in (np_mul lin_ind (Fin valid), valid)))"

text \<open>
  The whole function. The keypoints have shape \<open>(N, C, K)\<close>, the result is the pair of
  \<open>(len(rois), K)\<close> arrays \<^verbatim>\<open>(heatmaps, weights)\<close>, every entry of which the loop
  overwrites. \<^verbatim>\<open>blob_utils.zeros\<close> is not part of the module; \<open>out\<close> is the floating-point
  format of the arrays it provides, to which a stored label is converted. The assertion
  compares the joint axis with \<^verbatim>\<open>NUM_KEYPOINTS\<close>; without joints the loop does not run.
  The rows of the keypoints and of the ROIs are combined elementwise: their numbers
  agree, or a single keypoint instance is broadcast over the ROIs; anything else does not
  fit the result.
\<close>

definition pair_rows :: "array3 \<Rightarrow> roi list \<Rightarrow> error + (array2 \<times> roi) list" where
  "pair_rows keypoints rois =
     (if length keypoints = length rois then Inr (zip keypoints rois)
      else if length keypoints = 1 then Inr (map (\<lambda>r. (hd keypoints, r)) rois)
      else Inl ValueError)"

definition keypoints_to_heatmap_labels ::
    "krcnn_cfg \<Rightarrow> fmt \<Rightarrow> fmt \<Rightarrow> array3 \<Rightarrow> roi list \<Rightarrow> error + (npfloat list list \<times> real list list)" where
  "keypoints_to_heatmap_labels cfg w out keypoints rois =
     (if \<not> list_all (list_all (\<lambda>row. length row = NUM_KEYPOINTS cfg)) keypoints
      then Inl AssertionError
      else if NUM_KEYPOINTS cfg = 0 then Inr (map (\<lambda>r. []) rois, map (\<lambda>r. []) rois)
      else if \<not> list_all (\<lambda>inst. 2 < length inst) keypoints then Inl IndexError
      else case pair_rows keypoints rois of Inl e \<Rightarrow> Inl e | Inr pairs \<Rightarrow>
        (let encoded = map (\<lambda>(inst, r).
                 map (\<lambda>kp. encode_keypoint w (HEATMAP_SIZE cfg) r
                              (inst ! 0 ! kp) (inst ! 1 ! kp) (inst ! 2 ! kp))
                   [0..<NUM_KEYPOINTS cfg]) pairs
         in Inr (map (map (to_format out \<circ> fst)) encoded, map (map snd) encoded)))"
subsection \<open>scores_to_probs\<close>

text \<open>
  One channel: \<^verbatim>\<open>temp.max()\<close> raises \<^verbatim>\<open>ValueError\<close> on an empty channel; otherwise the sum
  of the exponentials holds the term \<open>exp 0\<close> of the maximum and is positive.
\<close>

definition softmax_channel :: "array2 \<Rightarrow> error + array2" where
  "softmax_channel temp =
     (if concat temp = [] then Inl ValueError
      else
        (let max_score = Max (set (concat temp));
             e = map (map (\<lambda>v. exp (v - max_score))) temp
         in Inr (map (map (\<lambda>v. v / sum_list (concat e))) e)))"

definition scores_to_probs :: "array3 \<Rightarrow> error + array3" where
  "scores_to_probs scores = collect (map softmax_channel scores)"

subsection \<open>heatmaps_to_keypoints\<close>

text \<open>\<^verbatim>\<open>np.transpose(maps, [0, 2, 3, 1])\<close> on one instance, and \<^verbatim>\<open>[2, 0, 1]\<close> back.\<close>

definition chw_to_hwc :: "array3 \<Rightarrow> array3" where
  "chw_to_hwc m = map transpose (transpose m)"

definition hwc_to_chw :: "array3 \<Rightarrow> array3" where
  "hwc_to_chw m = transpose (map transpose m)"

text \<open>\<^verbatim>\<open>argmax\<close> of the flattened channel: the first position of the maximum.\<close>

fun first_index :: "('a \<Rightarrow> bool) \<Rightarrow> 'a list \<Rightarrow> nat" where
  "first_index P [] = 0"
| "first_index P (x # xs) = (if P x then 0 else Suc (first_index P xs))"

definition argmax :: "real list \<Rightarrow> error + nat" where
  "argmax xs = (if xs = [] then Inl ValueError else Inr (first_index (\<lambda>v. v = Max (set xs)) xs))"

text \<open>
  The side of the working map along one axis: the ROI extent is clamped to at least 1
  and rounded up, and raised to \<^verbatim>\<open>INFERENCE_MIN_SIZE\<close> when that is positive.
\<close>

definition clamped_extent :: "real \<Rightarrow> real \<Rightarrow> real" where
  "clamped_extent lo hi = max (hi - lo) 1"

definition roi_map_size :: "int \<Rightarrow> real \<Rightarrow> real \<Rightarrow> int" where
  "roi_map_size min_size lo hi =
     (let extent_ceil = \<lceil>clamped_extent lo hi\<rceil>
      in if 0 < min_size then max extent_ceil min_size else extent_ceil)"

text \<open>\<^verbatim>\<open>roi_map.shape[2]\<close>\<close>

definition map_width :: "array3 \<Rightarrow> nat" where
  "map_width roi_map = (case roi_map of (row # rows) # chans \<Rightarrow> length row | _ \<Rightarrow> 0)"

text \<open>The body of the loop over the joints: the four output channels of joint \<open>k\<close>.\<close>

definition decode_joint ::
    "array3 \<Rightarrow> array3 \<Rightarrow> real \<Rightarrow> real \<Rightarrow> real \<Rightarrow> real \<Rightarrow> nat \<Rightarrow> error + (real \<times> real \<times> real \<times> real)" where
  "decode_joint roi_map roi_map_probs width_correction height_correction offset_x offset_y k =
     (if length roi_map \<le> k then Inl IndexError
      else case argmax (concat (roi_map ! k)) of Inl e \<Rightarrow> Inl e | Inr pos \<Rightarrow>
        (let w = map_width roi_map;
             x_int = pos mod w;
             y_int = (pos - x_int) div w
         in if roi_map_probs ! k ! y_int ! x_int \<noteq> Max (set (concat (roi_map_probs ! k)))
            then Inl AssertionError
            else
              (let x = (real x_int + 1 / 2) * width_correction;
                   y = (real y_int + 1 / 2) * height_correction
               in Inr (x + offset_x, y + offset_y,
                       roi_map ! k ! y_int ! x_int, roi_map_probs ! k ! y_int ! x_int))))"

text \<open>
  The working map of one ROI. \<open>resize m width height\<close> stands for
  \<^verbatim>\<open>cv2.resize(m, (width, height), interpolation=cv2.INTER_CUBIC)\<close> on an \<open>(H, W, C)\<close>
  array; OpenCV is not part of the module, so the routine is a parameter. The result is
  brought back to \<open>(C, H, W)\<close>.
\<close>

definition resized_map ::
    "krcnn_cfg \<Rightarrow> (array3 \<Rightarrow> nat \<Rightarrow> nat \<Rightarrow> array3) \<Rightarrow> array3 \<Rightarrow> roi \<Rightarrow> array3" where
  "resized_map cfg resize maps_i r =
     (case r of (x1, y1, x2, y2) \<Rightarrow>
        hwc_to_chw (resize (chw_to_hwc maps_i)
          (nat (roi_map_size (INFERENCE_MIN_SIZE cfg) x1 x2))
          (nat (roi_map_size (INFERENCE_MIN_SIZE cfg) y1 y2))))"

text \<open>The body of the loop over the ROIs.\<close>

definition decode_instance ::
    "krcnn_cfg \<Rightarrow> (array3 \<Rightarrow> nat \<Rightarrow> nat \<Rightarrow> array3) \<Rightarrow> array3 \<Rightarrow> roi \<Rightarrow> error + array2" where
  "decode_instance cfg resize maps_i r =
     (case r of (x1, y1, x2, y2) \<Rightarrow>
       (let widths = clamped_extent x1 x2;
            heights = clamped_extent y1 y2;
            roi_map_width = roi_map_size (INFERENCE_MIN_SIZE cfg) x1 x2;
            roi_map_height = roi_map_size (INFERENCE_MIN_SIZE cfg) y1 y2;
            width_correction = widths / of_int roi_map_width;
            height_correction = heights / of_int roi_map_height;
            roi_map = resized_map cfg resize maps_i r
        in case scores_to_probs roi_map of Inl e \<Rightarrow> Inl e | Inr roi_map_probs \<Rightarrow>
          (case collect (map (decode_joint roi_map roi_map_probs width_correction height_correction x1 y1)
                          [0..<NUM_KEYPOINTS cfg]) of
             Inl e \<Rightarrow> Inl e
           | Inr joints \<Rightarrow>
               Inr [map (\<lambda>(x, y, score, prob). x) joints, map (\<lambda>(x, y, score, prob). y) joints,
                    map (\<lambda>(x, y, score, prob). score) joints,
                    map (\<lambda>(x, y, score, prob). prob) joints])))"

definition heatmaps_to_keypoints ::
    "krcnn_cfg \<Rightarrow> (array3 \<Rightarrow> nat \<Rightarrow> nat \<Rightarrow> array3) \<Rightarrow> array4 \<Rightarrow> roi list \<Rightarrow> error + array3" where
  "heatmaps_to_keypoints cfg resize maps rois =
     collect (map (\<lambda>i. if length maps \<le> i then Inl IndexError
                         else decode_instance cfg resize (maps ! i) (rois ! i))
                [0..<length rois])"




subsection \<open>The module namespace\<close>

text \<open>
  The names the module binds at its top level: the imports of lines 17 to 28 and the
  functions it defines. The imports of \<^verbatim>\<open>cfg\<close> and \<^verbatim>\<open>blob_utils\<close> (lines 30 and 31)
  are comments. A name that a function reads without assigning it is looked up in this
  namespace (neither \<^verbatim>\<open>cfg\<close> nor \<^verbatim>\<open>blob_utils\<close> is a builtin), and an unbound name
  raises \<^verbatim>\<open>NameError\<close>.
\<close>

definition module_names :: "string list" where
  "module_names =
     [''absolute_import'', ''division'', ''print_function'', ''unicode_literals'',
      ''cv2'', ''np'', ''torch'', ''F'',
      ''get_keypoints'', ''get_person_class_index'', ''flip_keypoints'', ''flip_heatmaps'',
      ''heatmaps_to_keypoints'', ''keypoints_to_heatmap_labels'', ''scores_to_probs'',
      ''nms_oks'', ''compute_oks'', ''get_max_preds'', ''generate_3d_integral_preds_tensor'',
      ''softmax_integral_tensor'']"

text \<open>
  What a global name can be bound to, as far as the two functions are concerned: a
  configuration object, a blob module whose \<^verbatim>\<open>zeros\<close> gives arrays of a format, or
  anything else (a module, a function), which has neither \<^verbatim>\<open>KRCNN\<close> nor \<^verbatim>\<open>zeros\<close>.
\<close>

datatype pyobject = Config krcnn_cfg | Blob fmt | Other

type_synonym namespace = "string \<Rightarrow> pyobject option"

definition module_namespace :: namespace where
  "module_namespace name = (if name \<in> set module_names then Some Other else None)"

definition read_cfg :: "namespace \<Rightarrow> error + krcnn_cfg" where
  "read_cfg globals =
     (case globals ''cfg'' of
        None \<Rightarrow> Inl (NameError ''cfg'')
      | Some (Config cfg) \<Rightarrow> Inr cfg
      | Some other \<Rightarrow> Inl AttributeError)"

definition read_blob_utils :: "namespace \<Rightarrow> error + fmt" where
  "read_blob_utils globals =
     (case globals ''blob_utils'' of
        None \<Rightarrow> Inl (NameError ''blob_utils'')
      | Some (Blob out) \<Rightarrow> Inr out
      | Some other \<Rightarrow> Inl AttributeError)"

text \<open>
  \<^verbatim>\<open>heatmaps_to_keypoints\<close> as the module has it: the statements before line 110 slice and
  transpose the arrays, which does not fail on arrays of the dimensions of the types;
  line 110 is the first to read \<^verbatim>\<open>cfg\<close>.
\<close>

definition heatmaps_to_keypoints_in ::
    "namespace \<Rightarrow> (array3 \<Rightarrow> nat \<Rightarrow> nat \<Rightarrow> array3) \<Rightarrow> array4 \<Rightarrow> roi list \<Rightarrow> error + array3" where
  "heatmaps_to_keypoints_in globals resize maps rois =
     (case read_cfg globals of
        Inl e \<Rightarrow> Inl e
      | Inr cfg \<Rightarrow> heatmaps_to_keypoints cfg resize maps rois)"

text \<open>
  \<^verbatim>\<open>keypoints_to_heatmap_labels\<close> as the module has it: the assertion of line 152 reads
  \<^verbatim>\<open>cfg\<close>, line 155 reads \<^verbatim>\<open>blob_utils\<close>.
\<close>

definition keypoints_to_heatmap_labels_in ::
    "namespace \<Rightarrow> fmt \<Rightarrow> array3 \<Rightarrow> roi list \<Rightarrow> error + (npfloat list list \<times> real list list)" where
  "keypoints_to_heatmap_labels_in globals w keypoints rois =
     (case read_cfg globals of
        Inl e \<Rightarrow> Inl e
      | Inr cfg \<Rightarrow>
          if \<not> list_all (list_all (\<lambda>row. length row = NUM_KEYPOINTS cfg)) keypoints
          then Inl AssertionError
          else (case read_blob_utils globals of
                  Inl e \<Rightarrow> Inl e
                | Inr out \<Rightarrow> keypoints_to_heatmap_labels cfg w out keypoints rois))"

subsection \<open>Arrays in a store\<close>

text \<open>
  To say which arrays a function writes, the arrays live in a store: the list of the
  arrays allocated so far. An array object is a position of the store, and an allocation
  (\<^verbatim>\<open>copy\<close>, \<^verbatim>\<open>np.zeros\<close>, the result of \<^verbatim>\<open>cv2.resize\<close>) appends. The functions of this
  section are the ones above with every read and write of an array object made
  explicit; they return the store they leave behind together with the result or the
  exception.
\<close>

definition allocate :: "'b list \<Rightarrow> 'b \<Rightarrow> 'b list \<times> nat" where
  "allocate store a = (store @ [a], length store)"

text \<open>
  The loop of \<^verbatim>\<open>flip_keypoints\<close>: each of the two assignments reads the joint of
  \<^verbatim>\<open>keypoint_coords\<close> first and then writes \<^verbatim>\<open>flipped_kps\<close>.
\<close>

fun swap_pairs_st ::
    "string list \<Rightarrow> (string \<times> string) list \<Rightarrow> nat \<Rightarrow> nat \<Rightarrow> 'a list list list list
       \<Rightarrow> 'a list list list list \<times> (error + unit)" where
  "swap_pairs_st keypoints [] keypoint_coords flipped_kps store = (store, Inr ())"
| "swap_pairs_st keypoints ((lkp, rkp) # rest) keypoint_coords flipped_kps store =
     (case index_of keypoints lkp of Inl e \<Rightarrow> (store, Inl e) | Inr lid \<Rightarrow>
       (case index_of keypoints rkp of Inl e \<Rightarrow> (store, Inl e) | Inr rid \<Rightarrow>
          if \<not> joint_in_range (store ! keypoint_coords) rid \<or> \<not> joint_in_range (store ! flipped_kps) lid
          then (store, Inl IndexError)
          else
            (let s1 = store[flipped_kps :=
                        assign_joint (store ! flipped_kps) lid (store ! keypoint_coords) rid]
             in if \<not> joint_in_range (s1 ! keypoint_coords) lid \<or> \<not> joint_in_range (s1 ! flipped_kps) rid
                then (s1, Inl IndexError)
                else swap_pairs_st keypoints rest keypoint_coords flipped_kps
                       (s1[flipped_kps :=
                             assign_joint (s1 ! flipped_kps) rid (s1 ! keypoint_coords) lid]))))"

definition flip_keypoints_st ::
    "'a arith \<Rightarrow> string list \<Rightarrow> (string \<times> string) list \<Rightarrow> 'a list list list list \<Rightarrow> nat \<Rightarrow> 'a
       \<Rightarrow> 'a list list list list \<times> (error + nat)" where
  "flip_keypoints_st ar keypoints keypoint_flip_map store keypoint_coords width =
     (case allocate store (store ! keypoint_coords) of (s0, flipped_kps) \<Rightarrow>
        (case swap_pairs_st keypoints keypoint_flip_map keypoint_coords flipped_kps s0 of
           (s1, Inl e) \<Rightarrow> (s1, Inl e)
         | (s1, Inr u) \<Rightarrow>
             (case mirror_x ar width (s1 ! flipped_kps) of
                Inl e \<Rightarrow> (s1, Inl e)
              | Inr mirrored \<Rightarrow>
                  (let s2 = s1[flipped_kps := mirrored]
                   in case zero_invisible ar (s2 ! flipped_kps) of
                        Inl e \<Rightarrow> (s2, Inl e)
                      | Inr zeroed \<Rightarrow> (s2[flipped_kps := zeroed], Inr flipped_kps)))))"

text \<open>The shape of an \<open>(N, C, K)\<close> array.\<close>

definition shape_of :: "'a list list list \<Rightarrow> nat list list" where
  "shape_of a = map (map length) a"

text \<open>
  The decoder works on arrays of two ranks: the heatmaps \<open>(N, C, H, W)\<close>, and the working
  maps and the result, which have three axes.
\<close>

datatype ndarray = A3 array3 | A4 array4

fun get3 :: "ndarray \<Rightarrow> array3" where
  "get3 (A3 a) = a"
| "get3 (A4 a) = []"

fun get4 :: "ndarray \<Rightarrow> array4" where
  "get4 (A4 a) = a"
| "get4 (A3 a) = []"

text \<open>
  \<^verbatim>\<open>scores_to_probs\<close>: the loop over the channels writes every channel of the array it
  was given, in place, and the function returns that array.
\<close>

fun softmax_channels_st :: "nat list \<Rightarrow> nat \<Rightarrow> ndarray list \<Rightarrow> ndarray list \<times> (error + unit)" where
  "softmax_channels_st [] scores store = (store, Inr ())"
| "softmax_channels_st (c # cs) scores store =
     (case softmax_channel (get3 (store ! scores) ! c) of
        Inl e \<Rightarrow> (store, Inl e)
      | Inr temp \<Rightarrow>
          softmax_channels_st cs scores (store[scores := A3 ((get3 (store ! scores))[c := temp])]))"

definition scores_to_probs_st :: "nat \<Rightarrow> ndarray list \<Rightarrow> ndarray list \<times> (error + nat)" where
  "scores_to_probs_st scores store =
     (case softmax_channels_st [0..<length (get3 (store ! scores))] scores store of
        (s, Inl e) \<Rightarrow> (s, Inl e)
      | (s, Inr u) \<Rightarrow> (s, Inr scores))"

text \<open>\<^verbatim>\<open>xy_preds[i, c, k] = v\<close>\<close>

definition set_entry :: "array3 \<Rightarrow> nat \<Rightarrow> nat \<Rightarrow> nat \<Rightarrow> real \<Rightarrow> array3" where
  "set_entry a i c k v = a[i := (a ! i)[c := (a ! i ! c)[k := v]]]"

text \<open>
  The loop over the joints. \<open>resized\<close> is the array that \<^verbatim>\<open>cv2.resize\<close> returned, of which
  \<^verbatim>\<open>roi_map\<close> is the transposed view; \<open>probs\<close> is the array that \<^verbatim>\<open>scores_to_probs\<close>
  returned. The four assignments write \<^verbatim>\<open>xy_preds\<close>.
\<close>

fun decode_joints_st ::
    "nat list \<Rightarrow> nat \<Rightarrow> nat \<Rightarrow> nat \<Rightarrow> nat \<Rightarrow> real \<Rightarrow> real \<Rightarrow> real \<Rightarrow> real \<Rightarrow> ndarray list
       \<Rightarrow> ndarray list \<times> (error + unit)" where
  "decode_joints_st [] resized probs xy_preds i width_correction height_correction offset_x offset_y
     store = (store, Inr ())"
| "decode_joints_st (k # ks) resized probs xy_preds i width_correction height_correction offset_x
     offset_y store =
     (case decode_joint (hwc_to_chw (get3 (store ! resized))) (get3 (store ! probs))
             width_correction height_correction offset_x offset_y k of
        Inl e \<Rightarrow> (store, Inl e)
      | Inr (x, y, score, prob) \<Rightarrow>
          (let s1 = store[xy_preds := A3 (set_entry (get3 (store ! xy_preds)) i 0 k x)];
               s2 = s1[xy_preds := A3 (set_entry (get3 (s1 ! xy_preds)) i 1 k y)];
               s3 = s2[xy_preds := A3 (set_entry (get3 (s2 ! xy_preds)) i 2 k score)];
               s4 = s3[xy_preds := A3 (set_entry (get3 (s3 ! xy_preds)) i 3 k prob)]
           in decode_joints_st ks resized probs xy_preds i width_correction height_correction
                offset_x offset_y s4))"

text \<open>
  The body of the loop over the ROIs. \<^verbatim>\<open>maps[i]\<close> is read through the transposed view
  of the heatmaps; \<^verbatim>\<open>cv2.resize\<close> returns a new array; \<^verbatim>\<open>roi_map.copy()\<close> allocates the
  array that \<^verbatim>\<open>scores_to_probs\<close> then overwrites.
\<close>

definition decode_instance_st ::
    "krcnn_cfg \<Rightarrow> (array3 \<Rightarrow> nat \<Rightarrow> nat \<Rightarrow> array3) \<Rightarrow> nat \<Rightarrow> nat \<Rightarrow> nat \<Rightarrow> roi \<Rightarrow> ndarray list
       \<Rightarrow> ndarray list \<times> (error + unit)" where
  "decode_instance_st cfg resize maps xy_preds i r store =
     (case r of (x1, y1, x2, y2) \<Rightarrow>
       (let widths = clamped_extent x1 x2;
            heights = clamped_extent y1 y2;
            roi_map_width = roi_map_size (INFERENCE_MIN_SIZE cfg) x1 x2;
            roi_map_height = roi_map_size (INFERENCE_MIN_SIZE cfg) y1 y2;
            width_correction = widths / of_int roi_map_width;
            height_correction = heights / of_int roi_map_height
        in if length (get4 (store ! maps)) \<le> i then (store, Inl IndexError)
           else
             (case allocate store
                     (A3 (resize (chw_to_hwc (get4 (store ! maps) ! i))
                            (nat roi_map_width) (nat roi_map_height))) of
                (s1, resized) \<Rightarrow>
                  (case allocate s1 (A3 (hwc_to_chw (get3 (s1 ! resized)))) of
                     (s2, roi_map_copy) \<Rightarrow>
                       (case scores_to_probs_st roi_map_copy s2 of
                          (s3, Inl e) \<Rightarrow> (s3, Inl e)
                        | (s3, Inr probs) \<Rightarrow>
                            decode_joints_st [0..<NUM_KEYPOINTS cfg] resized probs xy_preds i
                              width_correction height_correction x1 y1 s3)))))"

fun decode_instances_st ::
    "krcnn_cfg \<Rightarrow> (array3 \<Rightarrow> nat \<Rightarrow> nat \<Rightarrow> array3) \<Rightarrow> nat \<Rightarrow> nat \<Rightarrow> roi list \<Rightarrow> nat list
       \<Rightarrow> ndarray list \<Rightarrow> ndarray list \<times> (error + unit)" where
  "decode_instances_st cfg resize maps xy_preds rois [] store = (store, Inr ())"
| "decode_instances_st cfg resize maps xy_preds rois (i # rest) store =
     (case decode_instance_st cfg resize maps xy_preds i (rois ! i) store of
        (s1, Inl e) \<Rightarrow> (s1, Inl e)
      | (s1, Inr u) \<Rightarrow> decode_instances_st cfg resize maps xy_preds rois rest s1)"

text \<open>The whole decoder: \<^verbatim>\<open>xy_preds\<close> is allocated by \<^verbatim>\<open>np.zeros\<close> and returned.\<close>

definition heatmaps_to_keypoints_st ::
    "krcnn_cfg \<Rightarrow> (array3 \<Rightarrow> nat \<Rightarrow> nat \<Rightarrow> array3) \<Rightarrow> ndarray list \<Rightarrow> nat \<Rightarrow> roi list
       \<Rightarrow> ndarray list \<times> (error + nat)" where
  "heatmaps_to_keypoints_st cfg resize store maps rois =
     (case allocate store
             (A3 (replicate (length rois) (replicate 4 (replicate (NUM_KEYPOINTS cfg) 0)))) of
        (s0, xy_preds) \<Rightarrow>
          (case decode_instances_st cfg resize maps xy_preds rois [0..<length rois] s0 of
             (s1, Inl e) \<Rightarrow> (s1, Inl e)
           | (s1, Inr u) \<Rightarrow> (s1, Inr xy_preds)))"

text \<open>
  \<open>keeps n store store'\<close>: the first \<open>n\<close> arrays of the store are in \<open>store'\<close> as they
  were.
\<close>

definition keeps :: "nat \<Rightarrow> 'b list \<Rightarrow> 'b list \<Rightarrow> bool" where
  "keeps n store store' = (length store \<le> length store' \<and> list_all (\<lambda>a. store' ! a = store ! a) [0..<n])"

section \<open>Evaluating the rounding\<close>

lemma pow2_powr: "pow2 k = 2 powr of_int k"
  by (simp add: pow2_def powr_real_of_int inverse_eq_divide)

lemma binade_eval:
  assumes "pow2 e \<le> \<bar>x\<bar>" and "\<bar>x\<bar> < pow2 (e + 1)"
  shows "binade x = e"
proof -
  have "0 < pow2 e" by (simp add: pow2_def)
  with assms(1) have pos: "0 < \<bar>x\<bar>" by linarith
  have "\<lfloor>log 2 \<bar>x\<bar>\<rfloor> = e \<longleftrightarrow> 2 powr of_int e \<le> \<bar>x\<bar> \<and> \<bar>x\<bar> < 2 powr of_int (e + 1)"
    using pos by (intro floor_log_eq_powr_iff) simp_all
  with assms show ?thesis by (simp only: binade_def pow2_powr)
qed

text \<open>The rounding of a number whose binade \<open>e\<close> is known.\<close>

lemma round_to_eval:
  assumes "pow2 e \<le> \<bar>x\<bar>" and "\<bar>x\<bar> < pow2 (e + 1)"
  shows "round_to f x =
     (let u = pow2 (max e (emin f) - int (prec f) + 1);
          r = of_int (round_half_even (x / u)) * u
      in if pow2 (emax f + 1) \<le> \<bar>r\<bar> then signed_inf (0 < x) else Fin r)"
proof -
  have "0 < pow2 e" by (simp add: pow2_def)
  with assms(1) have "x \<noteq> 0" by auto
  then show ?thesis
    by (simp add: round_to_def ulp_def binade_eval [OF assms] Let_def)
qed

lemma round_to_zero: "round_to f 0 = Fin 0"
  by (simp add: round_to_def)

lemmas round_to_binades =
  round_to_zero
  round_to_eval [of "- 4"] round_to_eval [of 0] round_to_eval [of 2] round_to_eval [of 3]
  round_to_eval [of 4] round_to_eval [of 5] round_to_eval [of 6] round_to_eval [of 9]
  round_to_eval [of 10]

lemmas float_eval =
  round_to_binades pow2_def binary32_def binary64_def round_half_even_def Let_def
  to_format_def rounded_def np_sub_def np_le_def np_ge_def signed_inf_def

text \<open>Double precision holds 0.1 as 3602879701896397 / 2^55, single precision as 13421773 / 2^27.\<close>

lemma tenth_binary64:
  "round_to binary64 (1 / 10) = Fin (3602879701896397 / 36028797018963968)"
  by (simp add: float_eval)

lemma tenth_binary32:
  "round_to binary32 (3602879701896397 / 36028797018963968) = Fin (13421773 / 134217728)"
  by (simp add: float_eval)

section \<open>Properties of flip_keypoints\<close>

lemma map2_map2: "length xs = length ys \<Longrightarrow> map2 f (map2 g xs ys) ys = map2 (\<lambda>x y. f (g x y) y) xs ys"
  by (induction xs ys rule: list_induct2) auto

lemma map2_map2_nested:
  "list_all2 (\<lambda>x y. length x = length y) xs ys \<Longrightarrow>
   map2 (map2 f) (map2 (map2 g) xs ys) ys = map2 (map2 (\<lambda>x y. f (g x y) y)) xs ys"
  by (induction rule: list_all2_induct) (auto simp: map2_map2)

lemma map2_nested_shape:
  "list_all2 (\<lambda>x y. length x = length y) xs ys \<Longrightarrow>
   list_all2 (\<lambda>x y. length x = length y) (map2 (map2 g) xs ys) ys"
  by (induction rule: list_all2_induct) auto

lemma map2_same: "map2 f xs xs = map (\<lambda>x. f x x) xs"
  by (induction xs) auto

lemma length_swap_ids [simp]: "length (swap_ids ps orig fl) = length fl"
  by (induction ps orig fl rule: swap_ids.induct) auto

lemma joint_in_range_shape3: "shape3 K a \<Longrightarrow> j < K \<Longrightarrow> joint_in_range a j"
  by (auto simp: shape3_def joint_in_range_def list_all_iff)

lemma swap_pairs_rows:
  assumes "resolve_pairs ks fm = Inr ps"
    and "list_all (\<lambda>(lid, rid). lid < K \<and> rid < K) ps"
    and "shape3 K a"
    and "list_all2 (\<lambda>x y. length x = length y) fl a"
  shows "swap_pairs ks fm a fl = Inr (map2 (map2 (\<lambda>fr orow. swap_ids ps orow fr)) fl a)"
  using assms
proof (induction fm arbitrary: ps fl)
  case Nil
  then have "ps = []" by simp
  moreover have "map2 (map2 (\<lambda>fr orow. fr)) fl a = fl"
    using Nil.prems(4)
    by (induction rule: list_all2_induct) (auto simp: map_fst_zip[unfolded fst_def, symmetric] intro: nth_equalityI)
  ultimately show ?case by simp
next
  case (Cons p fm)
  obtain lkp rkp where p: "p = (lkp, rkp)" by (cases p)
  from Cons.prems(1) obtain lid rid ps' where
    l: "index_of ks lkp = Inr lid" and r: "index_of ks rkp = Inr rid"
    and rest: "resolve_pairs ks fm = Inr ps'" and ps: "ps = (lid, rid) # ps'"
    by (auto simp: p split: sum.splits)
  from Cons.prems(2) ps have lt: "lid < K" "rid < K" and all': "list_all (\<lambda>(lid, rid). lid < K \<and> rid < K) ps'"
    by auto
  let ?fl' = "assign_joint (assign_joint fl lid a rid) rid a lid"
  have fl': "?fl' = map2 (map2 (\<lambda>fr orow. fr[lid := orow ! rid, rid := orow ! lid])) fl a"
    unfolding assign_joint_def by (rule map2_map2_nested [OF Cons.prems(4)])
  have shape': "list_all2 (\<lambda>x y. length x = length y) ?fl' a"
    unfolding fl' by (rule map2_nested_shape [OF Cons.prems(4)])
  have "swap_pairs ks (p # fm) a fl = swap_pairs ks fm a ?fl'"
    using l r lt Cons.prems(3) by (simp add: p joint_in_range_shape3)
  also have "\<dots> = Inr (map2 (map2 (\<lambda>fr orow. swap_ids ps' orow fr)) ?fl' a)"
    by (rule Cons.IH [OF rest all' Cons.prems(3) shape'])
  also have "map2 (map2 (\<lambda>fr orow. swap_ids ps' orow fr)) ?fl' a
      = map2 (map2 (\<lambda>fr orow. swap_ids ps orow fr)) fl a"
    unfolding fl' ps by (simp add: map2_map2_nested [OF Cons.prems(4)])
  finally show ?case .
qed


lemma swap_ids_sources:
  assumes "list_all (\<lambda>(lid, rid). lid < K \<and> rid < K) ps" and "length row = K"
  shows "swap_ids ps row (map ((!) row) s0) = map ((!) row) (swap_ids ps [0..<K] s0)"
  using assms(1)
proof (induction ps arbitrary: s0)
  case Nil
  show ?case by simp
next
  case (Cons p ps)
  obtain lid rid where p: "p = (lid, rid)" by (cases p)
  from Cons.prems have lt: "lid < K" "rid < K" and rest: "list_all (\<lambda>(lid, rid). lid < K \<and> rid < K) ps"
    by (auto simp: p)
  have "(map ((!) row) s0)[lid := row ! rid, rid := row ! lid]
      = map ((!) row) (s0[lid := [0..<K] ! rid, rid := [0..<K] ! lid])"
    using lt by (simp add: map_update)
  then show ?case
    using Cons.IH [OF rest] by (simp add: p)
qed

lemma swap_ids_permute:
  assumes "list_all (\<lambda>(lid, rid). lid < K \<and> rid < K) ps" and "length row = K"
  shows "swap_ids ps row row = map ((!) row) (slot_sources ps K)"
proof -
  have "row = map ((!) row) [0..<K]"
    by (metis assms(2) map_nth)
  then have "swap_ids ps row row = swap_ids ps row (map ((!) row) [0..<K])" by simp
  also have "\<dots> = map ((!) row) (slot_sources ps K)"
    unfolding slot_sources_def by (rule swap_ids_sources [OF assms])
  finally show ?thesis .
qed

lemma length_slot_sources [simp]: "length (slot_sources ps K) = K"
  by (simp add: slot_sources_def)

lemma flip_keypoints_closed_form:
  assumes res: "resolve_pairs ks fm = Inr ps"
    and lt: "list_all (\<lambda>(lid, rid). lid < K \<and> rid < K) ps"
    and sh: "shape3 K a"
  shows "flip_keypoints ar ks fm a width = Inr (map (flip_inst ar (slot_sources ps K) width) a)"
proof -
  have same: "list_all2 (\<lambda>x y. length x = length y) a a"
    by (simp add: list_all2_same)
  have "swap_pairs ks fm a a = Inr (map (map (\<lambda>row. swap_ids ps row row)) a)"
    using swap_pairs_rows [OF res lt sh same] by (simp add: map2_same)
  also have "map (map (\<lambda>row. swap_ids ps row row)) a
      = map (map (\<lambda>row. map ((!) row) (slot_sources ps K))) a"
    using sh lt by (auto simp: shape3_def list_all_iff swap_ids_permute)
  finally have sw: "swap_pairs ks fm a a = Inr (map (map (\<lambda>row. map ((!) row) (slot_sources ps K))) a)" .
  have c3: "\<And>inst. inst \<in> set a \<Longrightarrow> 2 < length inst"
    using sh by (auto simp: shape3_def list_all_iff)
  show ?thesis
    unfolding flip_keypoints_def sw
    by (auto simp: mirror_x_def zero_invisible_def list_all_iff flip_inst_def Let_def dest: c3)
qed


lemma swap_ids_bounded:
  assumes "list_all (\<lambda>(lid, rid). lid < K \<and> rid < K) ps" and "list_all (\<lambda>j. j < K) s0"
  shows "list_all (\<lambda>j. j < K) (swap_ids ps [0..<K] s0)"
  using assms
proof (induction ps arbitrary: s0)
  case Nil
  then show ?case by simp
next
  case (Cons p ps)
  obtain lid rid where p: "p = (lid, rid)" by (cases p)
  from Cons.prems have lt: "lid < K" "rid < K" and rest: "list_all (\<lambda>(lid, rid). lid < K \<and> rid < K) ps"
    by (auto simp: p)
  have "list_all (\<lambda>j. j < K) (s0[lid := [0..<K] ! rid, rid := [0..<K] ! lid])"
    using Cons.prems(2) lt by (auto simp: list_all_iff dest!: set_update_subset_insert [THEN subsetD])
  from Cons.IH [OF rest this] show ?case by (simp add: p)
qed

lemma slot_sources_bounded:
  "list_all (\<lambda>(lid, rid). lid < K \<and> rid < K) ps \<Longrightarrow> j < K \<Longrightarrow> slot_sources ps K ! j < K"
  using swap_ids_bounded [of K ps "[0..<K]"]
  by (simp add: slot_sources_def list_all_length)


lemma length_flip_inst [simp]: "length (flip_inst ar src width inst) = length inst"
  by (simp add: flip_inst_def Let_def)

lemma flip_inst_nth_0:
  "2 < length inst \<Longrightarrow>
   flip_inst ar src width inst ! 0
     = map2 (\<lambda>x v. if a_is_zero ar v then a_zero ar else x)
         (map (mirror ar width) (map ((!) (inst ! 0)) src)) (map ((!) (inst ! 2)) src)"
proof -
  assume len: "2 < length inst"
  then have "0 < length inst" by (cases inst) auto
  with len show ?thesis by (simp add: flip_inst_def Let_def)
qed

lemma flip_inst_nth_other:
  "c < length inst \<Longrightarrow> c \<noteq> 0 \<Longrightarrow> flip_inst ar src width inst ! c = map ((!) (inst ! c)) src"
  by (simp add: flip_inst_def Let_def)

lemma flip_inst_shape:
  assumes "2 < length inst" and "list_all (\<lambda>row. length row = K) inst" and "length src = K"
  shows "2 < length (flip_inst ar src width inst) \<and> list_all (\<lambda>row. length row = K) (flip_inst ar src width inst)"
proof -
  have "length (flip_inst ar src width inst ! c) = K" if "c < length inst" for c
    using assms(1,3) that by (cases "c = 0") (simp_all add: flip_inst_nth_0 flip_inst_nth_other)
  then show ?thesis using assms(1) by (simp add: list_all_length)
qed

lemma permute_twice:
  assumes "length row = K" and "length src = K" and "\<And>j. j < K \<Longrightarrow> src ! j < K"
    and "\<And>j. j < K \<Longrightarrow> src ! (src ! j) = j"
  shows "map ((!) (map ((!) row) src)) src = row"
  using assms by (auto intro!: nth_equalityI)

lemma flip_inst_twice:
  assumes len: "2 < length inst" and rows: "list_all (\<lambda>row. length row = K) inst"
    and src: "length src = K" and bnd: "\<And>j. j < K \<Longrightarrow> src ! j < K"
    and inv: "\<And>j. j < K \<Longrightarrow> src ! (src ! j) = j"
  shows "flip_inst ar src width (flip_inst ar src width inst)
       = inst[0 := map2 (\<lambda>x v. if a_is_zero ar v then a_zero ar
                                  else mirror ar width (mirror ar width x))
                     (inst ! 0) (inst ! 2)]"
    (is "?twice = inst[0 := ?row0]")
proof (rule nth_equalityI)
  show "length ?twice = length (inst[0 := ?row0])"
    by simp
next
  fix c assume "c < length ?twice"
  then have c: "c < length inst" by simp
  have rl: "\<And>c. c < length inst \<Longrightarrow> length (inst ! c) = K"
    using rows by (simp add: list_all_length)
  show "?twice ! c = inst[0 := ?row0] ! c"
  proof (cases "c = 0")
    case True
    have pos: "0 < length inst" using len by (cases inst) auto
    then have l0: "length (inst ! 0) = K" by (rule rl)
    have l2: "length (inst ! 2) = K" using len by (rule rl)
    have "?twice ! 0 = ?row0"
    proof (rule nth_equalityI)
      show "length (?twice ! 0) = length ?row0"
        using len src l0 l2 by (simp add: flip_inst_nth_0)
    next
      fix j assume "j < length (?twice ! 0)"
      then have j: "j < K" using len src by (simp add: flip_inst_nth_0)
      show "?twice ! 0 ! j = ?row0 ! j"
        using len src j bnd [OF j] inv [OF j] l0 l2
        by (simp add: flip_inst_nth_0 flip_inst_nth_other)
    qed
    then show ?thesis using pos by (simp add: True)
  next
    case False
    have "?twice ! c = map ((!) (map ((!) (inst ! c)) src)) src"
      using c False by (simp add: flip_inst_nth_other)
    also have "\<dots> = inst ! c"
      by (rule permute_twice [OF rl [OF c] src bnd inv])
    finally show ?thesis using False by simp
  qed
qed

lemma index_of_present:
  "a \<in> set ks \<Longrightarrow> \<exists>i. index_of ks a = Inr i \<and> i < length ks \<and> ks ! i = a"
  by (induction ks) auto

lemma index_of_sound: "index_of ks a = Inr i \<Longrightarrow> i < length ks \<and> ks ! i = a"
  by (induction ks arbitrary: i) (auto split: if_splits sum.splits)

lemma resolve_pairs_present:
  assumes "list_all (\<lambda>name. name \<in> set ks) (map fst fm @ map snd fm)"
  shows "\<exists>ps. resolve_pairs ks fm = Inr ps \<and>
           list_all2 (\<lambda>(l, r) (lid, rid). index_of ks l = Inr lid \<and> index_of ks r = Inr rid) fm ps"
  using assms
proof (induction fm)
  case Nil
  show ?case by simp
next
  case (Cons p fm)
  obtain l r where p: "p = (l, r)" by (cases p)
  from Cons.prems p have l: "l \<in> set ks" and r: "r \<in> set ks"
    and rest: "list_all (\<lambda>name. name \<in> set ks) (map fst fm @ map snd fm)"
    by simp_all
  from index_of_present [OF l] obtain lid where lid: "index_of ks l = Inr lid" by blast
  from index_of_present [OF r] obtain rid where rid: "index_of ks r = Inr rid" by blast
  from Cons.IH [OF rest] obtain ps where ps: "resolve_pairs ks fm = Inr ps"
    and rel: "list_all2 (\<lambda>(l, r) (lid, rid). index_of ks l = Inr lid \<and> index_of ks r = Inr rid) fm ps"
    by blast
  have "resolve_pairs ks (p # fm) = Inr ((lid, rid) # ps)"
    by (simp add: p lid rid ps)
  moreover have "list_all2 (\<lambda>(l, r) (lid, rid). index_of ks l = Inr lid \<and> index_of ks r = Inr rid)
      (p # fm) ((lid, rid) # ps)"
    using rel by (simp add: p lid rid)
  ultimately show ?case by blast
qed

lemma resolved_indices:
  assumes rel: "list_all2 (\<lambda>(l, r) (lid, rid). index_of ks l = Inr lid \<and> index_of ks r = Inr rid) fm ps"
    and d: "distinct (map fst fm @ map snd fm)"
  shows "distinct (map fst ps @ map snd ps) \<and> list_all (\<lambda>(lid, rid). lid < length ks \<and> rid < length ks) ps"
proof -
  define name_of where "name_of i = ks ! i" for i
  have fsts: "map name_of (map fst ps) = map fst fm" and snds: "map name_of (map snd ps) = map snd fm"
    and bound: "list_all (\<lambda>(lid, rid). lid < length ks \<and> rid < length ks) ps"
    using rel
    by (induction rule: list_all2_induct) (auto simp: name_of_def dest: index_of_sound)
  have "map name_of (map fst ps @ map snd ps) = map fst fm @ map snd fm"
    using fsts snds by simp
  with d have "distinct (map name_of (map fst ps @ map snd ps))" by simp
  then have "distinct (map fst ps @ map snd ps)" by (simp only: distinct_map)
  with bound show ?thesis by simp
qed

lemma swap_ids_disjoint:
  assumes "distinct (map fst ps @ map snd ps)"
    and "list_all (\<lambda>(lid, rid). lid < K \<and> rid < K) ps"
    and "length s0 = K"
  shows "(\<forall>(l, r)\<in>set ps. swap_ids ps [0..<K] s0 ! l = r \<and> swap_ids ps [0..<K] s0 ! r = l) \<and>
         (\<forall>j. j \<notin> set (map fst ps @ map snd ps) \<longrightarrow> swap_ids ps [0..<K] s0 ! j = s0 ! j)"
  using assms
proof (induction ps arbitrary: s0)
  case Nil
  show ?case by simp
next
  case (Cons p ps)
  obtain l r where p: "p = (l, r)" by (cases p)
  let ?s1 = "s0[l := [0..<K] ! r, r := [0..<K] ! l]"
  from Cons.prems(1) p have lr: "l \<noteq> r" and l_out: "l \<notin> set (map fst ps @ map snd ps)"
    and r_out: "r \<notin> set (map fst ps @ map snd ps)" and d: "distinct (map fst ps @ map snd ps)"
    by auto
  from Cons.prems(2) p have lt: "l < K" "r < K" and b: "list_all (\<lambda>(lid, rid). lid < K \<and> rid < K) ps"
    by simp_all
  have len1: "length ?s1 = K" using Cons.prems(3) by simp
  from Cons.IH [OF d b len1]
  have pairs: "\<forall>(l', r')\<in>set ps. swap_ids ps [0..<K] ?s1 ! l' = r' \<and> swap_ids ps [0..<K] ?s1 ! r' = l'"
    and others: "\<forall>j. j \<notin> set (map fst ps @ map snd ps) \<longrightarrow> swap_ids ps [0..<K] ?s1 ! j = ?s1 ! j"
    by simp_all
  have step: "swap_ids (p # ps) [0..<K] s0 = swap_ids ps [0..<K] ?s1" by (simp add: p)
  have at_l: "swap_ids ps [0..<K] ?s1 ! l = r"
    using others l_out lt lr Cons.prems(3) by simp
  have at_r: "swap_ids ps [0..<K] ?s1 ! r = l"
    using others r_out lt lr Cons.prems(3) by simp
  have rest: "swap_ids ps [0..<K] ?s1 ! j = s0 ! j" if "j \<notin> set (map fst (p # ps) @ map snd (p # ps))" for j
  proof -
    from that p have "j \<noteq> l" "j \<noteq> r" "j \<notin> set (map fst ps @ map snd ps)" by auto
    with others show ?thesis by simp
  qed
  show ?case
    unfolding step using at_l at_r pairs rest by (auto simp: p)
qed

lemma slot_sources_involution:
  assumes d: "distinct (map fst ps @ map snd ps)"
    and b: "list_all (\<lambda>(lid, rid). lid < K \<and> rid < K) ps"
    and j: "j < K"
  shows "slot_sources ps K ! (slot_sources ps K ! j) = j"
proof -
  let ?s = "slot_sources ps K"
  from swap_ids_disjoint [OF d b, of "[0..<K]"]
  have pairs: "\<forall>(l, r)\<in>set ps. ?s ! l = r \<and> ?s ! r = l"
    and others: "\<forall>j. j \<notin> set (map fst ps @ map snd ps) \<longrightarrow> ?s ! j = [0..<K] ! j"
    by (simp_all add: slot_sources_def)
  show ?thesis
  proof (cases "j \<in> set (map fst ps @ map snd ps)")
    case True
    then consider r where "(j, r) \<in> set ps" | l where "(l, j) \<in> set ps" by force
    then show ?thesis
    proof cases
      case 1
      with pairs show ?thesis by force
    next
      case 2
      with pairs show ?thesis by force
    qed
  next
    case False
    with others j have "?s ! j = j" by simp
    then show ?thesis by simp
  qed
qed
lemma flip_keypoints_pairs:
  assumes pd: "pairs_disjoint keypoints keypoint_flip_map" and ks: "length keypoints \<le> K"
  shows "\<exists>ps. resolve_pairs keypoints keypoint_flip_map = Inr ps \<and>
           list_all (\<lambda>(lid, rid). lid < K \<and> rid < K) ps \<and>
           (\<forall>j<K. slot_sources ps K ! j < K \<and> slot_sources ps K ! (slot_sources ps K ! j) = j)"
proof -
  from pd have d: "distinct (map fst keypoint_flip_map @ map snd keypoint_flip_map)"
    and present: "list_all (\<lambda>name. name \<in> set keypoints)
                    (map fst keypoint_flip_map @ map snd keypoint_flip_map)"
    by (simp_all add: pairs_disjoint_def)
  from resolve_pairs_present [OF present] obtain ps where
    res: "resolve_pairs keypoints keypoint_flip_map = Inr ps"
    and rel: "list_all2 (\<lambda>(l, r) (lid, rid). index_of keypoints l = Inr lid \<and> index_of keypoints r = Inr rid)
                keypoint_flip_map ps"
    by blast
  from resolved_indices [OF rel d] have dps: "distinct (map fst ps @ map snd ps)"
    and bks: "list_all (\<lambda>(lid, rid). lid < length keypoints \<and> rid < length keypoints) ps"
    by simp_all
  from bks ks have b: "list_all (\<lambda>(lid, rid). lid < K \<and> rid < K) ps"
    by (auto simp: list_all_iff)
  have "slot_sources ps K ! j < K \<and> slot_sources ps K ! (slot_sources ps K ! j) = j" if "j < K" for j
    using slot_sources_bounded [OF b that] slot_sources_involution [OF dps b that] by simp
  with res b show ?thesis by blast
qed

text \<open>
  C9 (amended). For a flip map that pairs joints (no name twice, every name in the
  schema) and an array with at least three channels of \<open>K\<close> joints, in any arithmetic:
  flipping twice with the same schema and width succeeds; every channel but x is the
  original one; the x of a joint of visibility 0 is 0, and the x of any other joint is
  \<open>width - (width - x - 1) - 1\<close> evaluated in the arithmetic of the array. Where that
  arithmetic makes the mirror its own inverse (the integers), the result is the original
  array with the x of the invisible joints set to 0, and the original array itself if it
  already has x = 0 wherever the visibility is 0.
\<close>

theorem flip_keypoints_twice:
  assumes pd: "pairs_disjoint keypoints keypoint_flip_map" and ks: "length keypoints \<le> K"
    and sh: "shape3 K a"
  shows "\<exists>once. flip_keypoints ar keypoints keypoint_flip_map a width = Inr once \<and>
           flip_keypoints ar keypoints keypoint_flip_map once width
             = Inr (map (\<lambda>inst. inst[0 := map2 (\<lambda>x v. if a_is_zero ar v then a_zero ar
                                                         else mirror ar width (mirror ar width x))
                                            (inst ! 0) (inst ! 2)]) a) \<and>
           ((\<forall>x. mirror ar width (mirror ar width x) = x) \<longrightarrow>
              flip_keypoints ar keypoints keypoint_flip_map once width
                = Inr (map (\<lambda>inst. inst[0 := map2 (\<lambda>x v. if a_is_zero ar v then a_zero ar else x)
                                               (inst ! 0) (inst ! 2)]) a)) \<and>
           ((\<forall>x. mirror ar width (mirror ar width x) = x) \<and>
            list_all (\<lambda>inst. list_all (\<lambda>(x, v). a_is_zero ar v \<longrightarrow> x = a_zero ar)
                                (zip (inst ! 0) (inst ! 2))) a
              \<longrightarrow> flip_keypoints ar keypoints keypoint_flip_map once width = Inr a)"
proof -
  from flip_keypoints_pairs [OF pd ks] obtain ps where
    res: "resolve_pairs keypoints keypoint_flip_map = Inr ps"
    and lt: "list_all (\<lambda>(lid, rid). lid < K \<and> rid < K) ps"
    and perm: "\<forall>j<K. slot_sources ps K ! j < K \<and> slot_sources ps K ! (slot_sources ps K ! j) = j"
    by blast
  let ?src = "slot_sources ps K"
  let ?once = "map (flip_inst ar ?src width) a"
  let ?mm = "\<lambda>inst::'a list list. inst[0 := map2 (\<lambda>x v. if a_is_zero ar v then a_zero ar
                                    else mirror ar width (mirror ar width x)) (inst ! 0) (inst ! 2)]"
  let ?z = "\<lambda>inst::'a list list. inst[0 := map2 (\<lambda>x v. if a_is_zero ar v then a_zero ar else x)
                                    (inst ! 0) (inst ! 2)]"
  have bnd: "\<And>j. j < K \<Longrightarrow> ?src ! j < K" and inv': "\<And>j. j < K \<Longrightarrow> ?src ! (?src ! j) = j"
    using perm by simp_all
  have first: "flip_keypoints ar keypoints keypoint_flip_map a width = Inr ?once"
    by (rule flip_keypoints_closed_form [OF res lt sh])
  have sh1: "shape3 K ?once"
    using sh flip_inst_shape [where K = K and src = ?src and width = width and ar = ar]
    by (auto simp: shape3_def list_all_iff)
  have "flip_keypoints ar keypoints keypoint_flip_map ?once width
      = Inr (map (flip_inst ar ?src width) ?once)"
    by (rule flip_keypoints_closed_form [OF res lt sh1])
  also have "map (flip_inst ar ?src width) ?once = map ?mm a"
    using sh bnd inv' by (auto simp: shape3_def list_all_iff intro!: flip_inst_twice [where K = K])
  finally have second: "flip_keypoints ar keypoints keypoint_flip_map ?once width = Inr (map ?mm a)" .
  have exact: "map ?mm a = map ?z a" if "\<forall>x. mirror ar width (mirror ar width x) = x"
  proof -
    from that have "(\<lambda>x v. if a_is_zero ar v then a_zero ar else mirror ar width (mirror ar width x))
        = (\<lambda>x v. if a_is_zero ar v then a_zero ar else x)"
      by (intro ext) simp
    then show ?thesis by (simp only:)
  qed
  have ident: "map ?z a = a"
    if conv: "list_all (\<lambda>inst. list_all (\<lambda>(x, v). a_is_zero ar v \<longrightarrow> x = a_zero ar)
                          (zip (inst ! 0) (inst ! 2))) a"
  proof -
    have "?z inst = inst" if "inst \<in> set a" for inst
    proof -
      from sh that have len: "2 < length inst" and rows: "list_all (\<lambda>row. length row = K) inst"
        by (auto simp: shape3_def list_all_iff)
      have pos: "0 < length inst" using len by (cases inst) auto
      have l0: "length (inst ! 0) = K" and l2: "length (inst ! 2) = K"
        using rows pos len by (simp_all add: list_all_length)
      from conv that have "list_all (\<lambda>(x, v). a_is_zero ar v \<longrightarrow> x = a_zero ar) (zip (inst ! 0) (inst ! 2))"
        by (simp add: list_all_iff)
      then have c: "\<And>j. j < K \<Longrightarrow> a_is_zero ar (inst ! 2 ! j) \<Longrightarrow> inst ! 0 ! j = a_zero ar"
        using l0 l2 by (simp add: list_all_length)
      have "map2 (\<lambda>x v. if a_is_zero ar v then a_zero ar else x) (inst ! 0) (inst ! 2) = inst ! 0"
        using l0 l2 c by (auto intro!: nth_equalityI)
      then show ?thesis by simp
    qed
    then show ?thesis by (simp add: map_idI)
  qed
  have third: "(\<forall>x. mirror ar width (mirror ar width x) = x) \<longrightarrow>
      flip_keypoints ar keypoints keypoint_flip_map ?once width = Inr (map ?z a)"
  proof (rule impI)
    assume "\<forall>x. mirror ar width (mirror ar width x) = x"
    from exact [OF this] second show "flip_keypoints ar keypoints keypoint_flip_map ?once width = Inr (map ?z a)"
      by (simp only:)
  qed
  have fourth: "(\<forall>x. mirror ar width (mirror ar width x) = x) \<and>
      list_all (\<lambda>inst. list_all (\<lambda>(x, v). a_is_zero ar v \<longrightarrow> x = a_zero ar)
                          (zip (inst ! 0) (inst ! 2))) a
      \<longrightarrow> flip_keypoints ar keypoints keypoint_flip_map ?once width = Inr a"
  proof (rule impI, elim conjE)
    assume m: "\<forall>x. mirror ar width (mirror ar width x) = x"
      and c: "list_all (\<lambda>inst. list_all (\<lambda>(x, v). a_is_zero ar v \<longrightarrow> x = a_zero ar)
                          (zip (inst ! 0) (inst ! 2))) a"
    from exact [OF m] ident [OF c] have "map ?mm a = a" by (simp only:)
    with second show "flip_keypoints ar keypoints keypoint_flip_map ?once width = Inr a"
      by (simp only:)
  qed
  show ?thesis
    by (rule exI [of _ ?once]) (intro conjI first second third fourth)
qed

theorem flip_keypoints_twice_witness:
  "pairs_disjoint (fst get_keypoints) (snd get_keypoints) \<and>
   length (fst get_keypoints) \<le> 17 \<and>
   shape3 17 [[[1, 2, 3, 4, 5, 6, 7, 8, 9, 10, 11, 12, 13, 14, 15, 16, 17],
               [1, 2, 3, 4, 5, 6, 7, 8, 9, 10, 11, 12, 13, 14, 15, 16, 17],
               [0, 2, 0, 1, 1, 1, 1, 1, 1, 1, 1, 1, 1, 1, 1, 0, 1 :: int]]] \<and>
   (\<forall>x. mirror int_arith 100 (mirror int_arith 100 x) = x) \<and>
   (\<exists>once. flip_keypoints int_arith (fst get_keypoints) (snd get_keypoints)
              [[[1, 2, 3, 4, 5, 6, 7, 8, 9, 10, 11, 12, 13, 14, 15, 16, 17],
                [1, 2, 3, 4, 5, 6, 7, 8, 9, 10, 11, 12, 13, 14, 15, 16, 17],
                [0, 2, 0, 1, 1, 1, 1, 1, 1, 1, 1, 1, 1, 1, 1, 0, 1]]] 100 = Inr once \<and>
            flip_keypoints int_arith (fst get_keypoints) (snd get_keypoints) once 100
              = Inr [[[0, 2, 0, 4, 5, 6, 7, 8, 9, 10, 11, 12, 13, 14, 15, 0, 17],
                      [1, 2, 3, 4, 5, 6, 7, 8, 9, 10, 11, 12, 13, 14, 15, 16, 17],
                      [0, 2, 0, 1, 1, 1, 1, 1, 1, 1, 1, 1, 1, 1, 1, 0, 1]]]) \<and>
   pairs_disjoint [''nose'', ''left_eye'', ''right_eye''] [(''left_eye'', ''right_eye'')] \<and>
   shape3 3 [[[7, 0, 9], [4, 5, 6], [1, 0, 2 :: int]]] \<and>
   list_all (\<lambda>inst. list_all (\<lambda>(x, v). a_is_zero int_arith v \<longrightarrow> x = a_zero int_arith)
                       (zip (inst ! 0) (inst ! 2)))
     [[[7, 0, 9], [4, 5, 6], [1, 0, 2 :: int]]] \<and>
   (\<exists>once. flip_keypoints int_arith [''nose'', ''left_eye'', ''right_eye''] [(''left_eye'', ''right_eye'')]
              [[[7, 0, 9], [4, 5, 6], [1, 0, 2]]] 20 = Inr once \<and>
            flip_keypoints int_arith [''nose'', ''left_eye'', ''right_eye''] [(''left_eye'', ''right_eye'')]
              once 20 = Inr [[[7, 0, 9], [4, 5, 6], [1, 0, 2]]])"
proof -
  let ?A = "[[[1, 2, 3, 4, 5, 6, 7, 8, 9, 10, 11, 12, 13, 14, 15, 16, 17],
               [1, 2, 3, 4, 5, 6, 7, 8, 9, 10, 11, 12, 13, 14, 15, 16, 17],
               [0, 2, 0, 1, 1, 1, 1, 1, 1, 1, 1, 1, 1, 1, 1, 0, 1 :: int]]]"
  let ?B = "[[[7, 0, 9], [4, 5, 6], [1, 0, 2 :: int]]]"
  have pd: "pairs_disjoint (fst get_keypoints) (snd get_keypoints)"
    by (simp add: pairs_disjoint_def get_keypoints_def)
  have ks: "length (fst get_keypoints) \<le> 17" by (simp add: get_keypoints_def)
  have sh: "shape3 17 ?A" by (simp add: shape3_def)
  have inv: "\<forall>x. mirror int_arith w (mirror int_arith w x) = x" for w
    by (simp add: mirror_def int_arith_def)
  have pd3: "pairs_disjoint [''nose'', ''left_eye'', ''right_eye''] [(''left_eye'', ''right_eye'')]"
    by (simp add: pairs_disjoint_def)
  have ks3: "length [''nose'', ''left_eye'', ''right_eye''] \<le> 3" by simp
  have sh3: "shape3 3 ?B" by (simp add: shape3_def)
  have conv: "list_all (\<lambda>inst. list_all (\<lambda>(x, v). a_is_zero int_arith v \<longrightarrow> x = a_zero int_arith)
                       (zip (inst ! 0) (inst ! 2))) ?B"
    by (simp add: int_arith_def)
  have first: "\<exists>once. flip_keypoints int_arith (fst get_keypoints) (snd get_keypoints) ?A 100 = Inr once \<and>
            flip_keypoints int_arith (fst get_keypoints) (snd get_keypoints) once 100
              = Inr [[[0, 2, 0, 4, 5, 6, 7, 8, 9, 10, 11, 12, 13, 14, 15, 0, 17],
                      [1, 2, 3, 4, 5, 6, 7, 8, 9, 10, 11, 12, 13, 14, 15, 16, 17],
                      [0, 2, 0, 1, 1, 1, 1, 1, 1, 1, 1, 1, 1, 1, 1, 0, 1]]]"
    using flip_keypoints_twice [OF pd ks sh, of int_arith 100] inv [of 100]
    by (simp add: int_arith_def)
  have second: "\<exists>once. flip_keypoints int_arith [''nose'', ''left_eye'', ''right_eye'']
              [(''left_eye'', ''right_eye'')] ?B 20 = Inr once \<and>
            flip_keypoints int_arith [''nose'', ''left_eye'', ''right_eye''] [(''left_eye'', ''right_eye'')]
              once 20 = Inr ?B"
    using flip_keypoints_twice [OF pd3 ks3 sh3, of int_arith 20] inv [of 20] conv by blast
  from pd ks sh inv [of 100] first pd3 sh3 conv second show ?thesis by (intro conjI)
qed

text \<open>
  C9 as stated fails for a flip map whose pairs overlap: the second flip does not undo
  the first, although every joint is visible.
\<close>

theorem flip_keypoints_overlapping_pairs:
  "flip_keypoints int_arith [''a'', ''b'', ''c''] [(''a'', ''b''), (''b'', ''c'')]
     [[[1, 2, 3], [4, 5, 6], [1, 1, 1]]] 10 = Inr [[[7, 6, 7], [5, 6, 5], [1, 1, 1]]] \<and>
   flip_keypoints int_arith [''a'', ''b'', ''c''] [(''a'', ''b''), (''b'', ''c'')]
     [[[7, 6, 7], [5, 6, 5], [1, 1, 1]]] 10 = Inr [[[3, 2, 3], [6, 5, 6], [1, 1, 1]]] \<and>
   [[[3, 2, 3], [6, 5, 6], [1, 1, 1]]] \<noteq> [[[1, 2, 3], [4, 5, 6], [1, 1, 1 :: int]]]"
  by (simp add: flip_keypoints_def joint_in_range_def assign_joint_def mirror_x_def mirror_def
        zero_invisible_def int_arith_def)

text \<open>
  In double precision the mirror is not its own inverse: for the width 100 the double
  0.1 comes back from the two flips as 0.09999999999999432.
\<close>

lemma mirror_twice_in_double_precision:
  "mirror (float_arith (round_to binary64)) (Fin 100)
     (mirror (float_arith (round_to binary64)) (Fin 100)
        (Fin (3602879701896397 / 36028797018963968)))
   = Fin (3518437208883 / 35184372088832)"
  by (simp add: mirror_def float_arith_def float_eval)
section \<open>Properties of compute_oks\<close>

lemma np_sum_Fin: "np_sum (map (\<lambda>v. Fin (f v)) xs) = Fin (sum_list (map f xs))"
  by (induction xs) (simp_all add: np_sum_def)

lemma broadcast2_same_length:
  "length xs = length ys \<Longrightarrow> broadcast2 f xs ys = Inr (map2 f xs ys)"
  by (simp add: broadcast2_def)

lemma length_vars [simp]: "length vars = 17"
  by (simp add: vars_def sigmas_def)

lemma length_sigmas [simp]: "length sigmas = 17"
  by (simp add: sigmas_def)

lemma vars_nth: "k < 17 \<Longrightarrow> vars ! k = (2 * sigmas ! k)\<^sup>2"
  by (simp add: vars_def mult.commute)

lemma oks_row_formula:
  assumes len: "length src_x = 17" "length src_y = 17" "length dst_x = 17" "length dst_y = 17"
    and area: "src_area + np_spacing_1 \<noteq> 0"
  shows "oks_row src_x src_y src_area dst_x dst_y
       = Inr (Fin ((\<Sum>k<17. exp (- ((dst_x ! k - src_x ! k)\<^sup>2 + (dst_y ! k - src_y ! k)\<^sup>2)
                                   / (2 * (2 * sigmas ! k)\<^sup>2 * (src_area + np_spacing_1)))) / 17))"
proof -
  let ?dx = "map2 (\<lambda>d s. d - s) dst_x src_x" and ?dy = "map2 (\<lambda>d s. d - s) dst_y src_y"
  let ?sq = "map2 (+) (map (\<lambda>d. d\<^sup>2) ?dx) (map (\<lambda>d. d\<^sup>2) ?dy)"
  let ?q = "map2 (/) ?sq vars"
  let ?f = "\<lambda>v. exp (- (v / (src_area + np_spacing_1) / 2))"
  have lq: "length ?q = 17" using len by simp
  have row: "oks_row src_x src_y src_area dst_x dst_y
      = Inr (np_div (np_sum (map (\<lambda>v. Fin (?f v)) ?q)) (Fin 17))"
    using len area lq by (simp add: oks_row_def broadcast2_same_length Let_def comp_def)
  have "sum_list (map ?f ?q) = (\<Sum>k<17. ?f (?q ! k))"
    using lq by (simp add: sum_list_sum_nth atLeast0LessThan)
  also have "\<dots> = (\<Sum>k<17. exp (- ((dst_x ! k - src_x ! k)\<^sup>2 + (dst_y ! k - src_y ! k)\<^sup>2)
                                   / (2 * (2 * sigmas ! k)\<^sup>2 * (src_area + np_spacing_1))))"
  proof (rule sum.cong [OF refl])
    fix k :: nat assume "k \<in> {..<17}"
    then have k: "k < 17" by simp
    let ?n = "(dst_x ! k - src_x ! k)\<^sup>2 + (dst_y ! k - src_y ! k)\<^sup>2"
    have "?q ! k = ?n / vars ! k"
      using k len by simp
    then have "?q ! k = ?n / (2 * sigmas ! k)\<^sup>2"
      using k by (simp only: vars_nth)
    moreover have "- (?n / (2 * sigmas ! k)\<^sup>2 / (src_area + np_spacing_1) / 2)
        = - ?n / (2 * (2 * sigmas ! k)\<^sup>2 * (src_area + np_spacing_1))"
      by (simp only: divide_divide_eq_left minus_divide_left mult_ac)
    ultimately show "?f (?q ! k) = exp (- ?n / (2 * (2 * sigmas ! k)\<^sup>2 * (src_area + np_spacing_1)))"
      by (simp only:)
  qed
  finally have eq: "sum_list (map ?f ?q) = (\<Sum>k<17. exp (- ((dst_x ! k - src_x ! k)\<^sup>2 + (dst_y ! k - src_y ! k)\<^sup>2)
                                   / (2 * (2 * sigmas ! k)\<^sup>2 * (src_area + np_spacing_1))))" .
  have "np_div (np_sum (map (\<lambda>v. Fin (?f v)) ?q)) (Fin 17) = Fin (sum_list (map ?f ?q) / 17)"
    by (simp only: np_sum_Fin) simp
  then show ?thesis
    by (simp only: row eq)
qed


lemma collect_map_Inr:
  "(\<And>d. d \<in> set ds \<Longrightarrow> f d = Inr (g d)) \<Longrightarrow> collect (map f ds) = Inr (map g ds)"
  by (induction ds) simp_all

lemma compute_oks_value:
  assumes src: "1 < length src_keypoints" "length (src_keypoints ! 0) = 17"
      "length (src_keypoints ! 1) = 17"
    and dst: "list_all (\<lambda>d. 1 < length d \<and> length (d ! 0) = 17 \<and> length (d ! 1) = 17) dst_keypoints"
    and area: "(x2 - x1 + 1) * (y2 - y1 + 1) + np_spacing_1 \<noteq> 0"
  shows "0 < np_spacing_1 \<and>
         compute_oks src_keypoints (x1, y1, x2, y2) dst_keypoints dst_roi
       = Inr (map (\<lambda>d. Fin ((\<Sum>k<17. exp (- ((d ! 0 ! k - src_keypoints ! 0 ! k)\<^sup>2
                                               + (d ! 1 ! k - src_keypoints ! 1 ! k)\<^sup>2)
                                 / (2 * (2 * sigmas ! k)\<^sup>2
                                      * ((x2 - x1 + 1) * (y2 - y1 + 1) + np_spacing_1)))) / 17))
                dst_keypoints)"
proof
  show "0 < np_spacing_1" by (simp add: np_spacing_1_def)
next
  let ?area = "(x2 - x1 + 1) * (y2 - y1 + 1)"
  let ?g = "\<lambda>d. Fin ((\<Sum>k<17. exp (- ((d ! 0 ! k - src_keypoints ! 0 ! k)\<^sup>2
                                               + (d ! 1 ! k - src_keypoints ! 1 ! k)\<^sup>2)
                                 / (2 * (2 * sigmas ! k)\<^sup>2 * (?area + np_spacing_1)))) / 17)"
  have pos: "0 < length src_keypoints" using src(1) by (cases src_keypoints) auto
  have ch: "channel src_keypoints 0 = Inr (src_keypoints ! 0)"
      "channel src_keypoints 1 = Inr (src_keypoints ! 1)"
    using src(1) pos by (simp_all add: channel_def)
  have ok: "list_all (\<lambda>d. 1 < length d) dst_keypoints"
    using dst by (simp add: list_all_iff)
  have rows: "collect (map (\<lambda>d. oks_row (src_keypoints ! 0) (src_keypoints ! 1) ?area (d ! 0) (d ! 1))
                 dst_keypoints) = Inr (map ?g dst_keypoints)"
  proof (rule collect_map_Inr)
    fix d assume "d \<in> set dst_keypoints"
    with dst have d: "length (d ! 0) = 17" "length (d ! 1) = 17" by (auto simp: list_all_iff)
    show "oks_row (src_keypoints ! 0) (src_keypoints ! 1) ?area (d ! 0) (d ! 1) = Inr (?g d)"
      by (rule oks_row_formula [OF src(2,3) d area])
  qed
  show "compute_oks src_keypoints (x1, y1, x2, y2) dst_keypoints dst_roi = Inr (map ?g dst_keypoints)"
    using ok by (simp only: compute_oks_def Let_def prod.case ch rows sum.case if_False simp_thms)
qed


text \<open>
  C5. For a source pose and candidates with 17 joints and a source ROI whose area plus
  epsilon is not zero, \<^verbatim>\<open>compute_oks\<close> returns for every candidate the mean over the
  joints of \<open>exp (- (dx\<^sup>2 + dy\<^sup>2) / (2 * (2 * sigma\<^sub>k)\<^sup>2 * (area + epsilon)))\<close>, with
  \<open>area = (x2 - x1 + 1) * (y2 - y1 + 1)\<close> of the source ROI and \<open>epsilon = np.spacing(1) > 0\<close>.
\<close>

theorem compute_oks_formula:
  assumes src: "1 < length src_keypoints" "length (src_keypoints ! 0) = 17"
      "length (src_keypoints ! 1) = 17"
    and dst: "list_all (\<lambda>d. 1 < length d \<and> length (d ! 0) = 17 \<and> length (d ! 1) = 17) dst_keypoints"
    and area: "(x2 - x1 + 1) * (y2 - y1 + 1) + np_spacing_1 \<noteq> 0"
  shows "0 < np_spacing_1 \<and>
         compute_oks src_keypoints (x1, y1, x2, y2) dst_keypoints dst_roi
       = Inr (map (\<lambda>d. Fin ((\<Sum>k<17. exp (- ((d ! 0 ! k - src_keypoints ! 0 ! k)\<^sup>2
                                               + (d ! 1 ! k - src_keypoints ! 1 ! k)\<^sup>2)
                                 / (2 * (2 * sigmas ! k)\<^sup>2
                                      * ((x2 - x1 + 1) * (y2 - y1 + 1) + np_spacing_1)))) / 17))
                dst_keypoints)"
  by (rule compute_oks_value [OF assms])

theorem compute_oks_formula_witness:
  "1 < length [replicate 17 0, replicate 17 (0::real)] \<and>
   (11 * 11 + np_spacing_1 \<noteq> 0) \<and>
   compute_oks [replicate 17 0, replicate 17 0] (0, 0, 10, 10)
     [[replicate 17 0, replicate 17 0], [replicate 17 3, replicate 17 4]] [(0, 0, 10, 10), (0, 0, 10, 10)]
   = Inr [Fin 1, Fin ((\<Sum>k<17. exp (- 25 / (2 * (2 * sigmas ! k)\<^sup>2 * (121 + np_spacing_1)))) / 17)]"
proof -
  have a: "(10 - 0 + 1) * (10 - 0 + 1) + np_spacing_1 \<noteq> 0"
    by (simp add: np_spacing_1_def)
  have "compute_oks [replicate 17 0, replicate 17 0] (0, 0, 10, 10)
     [[replicate 17 0, replicate 17 0], [replicate 17 3, replicate 17 4]] [(0, 0, 10, 10), (0, 0, 10, 10)]
   = Inr [Fin 1, Fin ((\<Sum>k<17. exp (- 25 / (2 * (2 * sigmas ! k)\<^sup>2 * (121 + np_spacing_1)))) / 17)]"
    using compute_oks_formula [of "[replicate 17 0, replicate 17 0]"
        "[[replicate 17 0, replicate 17 0], [replicate 17 3, replicate 17 4]]" 10 0 10 0
        "[(0, 0, 10, 10), (0, 0, 10, 10)]", OF _ _ _ _ a]
    by simp
  then show ?thesis by (simp add: np_spacing_1_def)
qed

section \<open>Properties of nms_oks\<close>

lemma shape3_row:
  assumes "shape3 K a" and "n < length a" and "c < 3"
  shows "c < length (a ! n) \<and> length (a ! n ! c) = K"
proof -
  from assms(1,2) have len: "2 < length (a ! n)" and rows: "\<forall>c<length (a ! n). length (a ! n ! c) = K"
    by (simp_all add: shape3_def list_all_length)
  from len assms(3) have "c < length (a ! n)" by arith
  with rows show ?thesis by blast
qed

lemma select_by_index:
  "map ((!) xs) (filter (\<lambda>t. P (xs ! t)) [0..<length xs]) = filter P xs"
proof -
  have "filter P xs = filter P (map ((!) xs) [0..<length xs])" by (simp add: map_nth)
  also have "\<dots> = map ((!) xs) (filter (P \<circ> (!) xs) [0..<length xs])" by (rule filter_map)
  finally show ?thesis by (simp add: comp_def)
qed

lemma compute_oks_similarity:
  assumes kp: "shape3 17 kp" and i: "i < length kp"
    and rest: "list_all (\<lambda>j. j < length kp) rest"
    and area: "(case roi of (x1, y1, x2, y2) \<Rightarrow> (x2 - x1 + 1) * (y2 - y1 + 1) + np_spacing_1 \<noteq> 0)"
  shows "compute_oks (kp ! i) roi (map ((!) kp) rest) dst_roi
       = Inr (map (\<lambda>j. Fin (oks_similarity (kp ! i) roi (kp ! j))) rest)"
proof -
  obtain x1 y1 x2 y2 where roi: "roi = (x1, y1, x2, y2)" by (cases roi) auto
  have row: "1 < length (kp ! j) \<and> length (kp ! j ! 0) = 17 \<and> length (kp ! j ! 1) = 17"
    if "j < length kp" for j
    using shape3_row [OF kp that, of 0] shape3_row [OF kp that, of 1] by simp
  have dst: "list_all (\<lambda>d. 1 < length d \<and> length (d ! 0) = 17 \<and> length (d ! 1) = 17) (map ((!) kp) rest)"
    using rest row by (simp add: list_all_iff)
  from area have a: "(x2 - x1 + 1) * (y2 - y1 + 1) + np_spacing_1 \<noteq> 0" by (simp add: roi)
  show ?thesis
    using compute_oks_value [OF _ _ _ dst a, of "kp ! i" dst_roi] row [OF i]
    by (simp add: roi oks_similarity_def comp_def)
qed

text \<open>
  In exact arithmetic \<^verbatim>\<open>compute_oks\<close> meets the description \<open>computes_pairwise\<close>, with
  the value of the formula as the similarity.
\<close>

lemma compute_oks_pairwise:
  assumes kp: "shape3 17 kp"
    and areas: "list_all (\<lambda>(x1, y1, x2, y2). (x2 - x1 + 1) * (y2 - y1 + 1) + np_spacing_1 \<noteq> 0) rois"
    and len: "length rois = length kp"
  shows "computes_pairwise compute_oks kp rois
           (\<lambda>i j. Fin (oks_similarity (kp ! i) (rois ! i) (kp ! j)))"
  unfolding computes_pairwise_def
proof (intro allI impI)
  fix i pending
  assume a: "i < length kp \<and> list_all (\<lambda>j. j < length kp) pending"
  then have i: "i < length kp" and rest: "list_all (\<lambda>j. j < length kp) pending" by simp_all
  from areas i len
  have area: "(case rois ! i of (x1, y1, x2, y2) \<Rightarrow> (x2 - x1 + 1) * (y2 - y1 + 1) + np_spacing_1 \<noteq> 0)"
    by (simp add: list_all_length)
  show "compute_oks (kp ! i) (rois ! i) (map ((!) kp) pending) (map ((!) rois) pending)
      = Inr (map (\<lambda>j. Fin (oks_similarity (kp ! i) (rois ! i) (kp ! j))) pending)"
    by (rule compute_oks_similarity [OF kp i rest area])
qed

lemma np_le_Fin [simp]: "np_le (Fin a) (Fin b) = (a \<le> b)"
  by (auto simp: np_le_def)

lemma np_le_exceeds: "a \<noteq> NaN \<Longrightarrow> b \<noteq> NaN \<Longrightarrow> (\<not> np_le a b) = np_less b a"
  by (cases a; cases b) (auto simp: np_le_def)

lemma survivors_by_index:
  "map (\<lambda>t. (i # rest) ! (t + 1))
     (filter (\<lambda>t. np_le (map f rest ! t) thresh) [0..<length (map f rest)])
   = filter (\<lambda>j. np_le (f j) thresh) rest"
proof -
  have "filter (\<lambda>t. np_le (map f rest ! t) thresh) [0..<length rest]
      = filter (\<lambda>t. np_le (f (rest ! t)) thresh) [0..<length rest]"
    by (rule filter_cong) auto
  then show ?thesis
    using select_by_index [of rest "\<lambda>j. np_le (f j) thresh"] by simp
qed

lemma survivors_inside:
  "list_all (\<lambda>t. t + 1 < length (i # rest))
     (filter (\<lambda>t. np_le (map f rest ! t) thresh) [0..<length (map f rest)])"
  by (simp add: list_all_iff)

lemma nms_loop_greedy:
  assumes len: "length rois = length kp"
    and oks: "computes_pairwise oks kp rois sim"
    and order: "list_all (\<lambda>j. j < length kp) order"
  shows "nms_loop oks kp rois thresh order keep
       = Inr (keep @ greedy_suppress (\<lambda>i j. \<not> np_le (sim i j) thresh) order)"
  using order
proof (induction "length order" arbitrary: order keep rule: less_induct)
  case less
  let ?sim = "\<lambda>i j. \<not> np_le (sim i j) thresh"
  show ?case
  proof (cases order)
    case Nil
    then show ?thesis by (subst nms_loop.simps) simp
  next
    case (Cons i rest)
    from less.prems Cons have i: "i < length kp" and rest: "list_all (\<lambda>j. j < length kp) rest"
      by simp_all
    have restr: "list_all (\<lambda>j. j < length rois) rest" using rest len by simp
    let ?ovr = "map (sim i) rest"
    have ovr: "oks (kp ! i) (rois ! i) (map ((!) kp) rest) (map ((!) rois) rest) = Inr ?ovr"
      using oks i rest unfolding computes_pairwise_def by blast
    let ?order' = "filter (\<lambda>j. np_le (sim i j) thresh) rest"
    have surv: "map (\<lambda>t. (i # rest) ! (t + 1))
        (filter (\<lambda>t. np_le (?ovr ! t) thresh) [0..<length ?ovr]) = ?order'"
      by (rule survivors_by_index)
    have inside: "list_all (\<lambda>t. t + 1 < length (i # rest))
        (filter (\<lambda>t. np_le (?ovr ! t) thresh) [0..<length ?ovr])"
      by (rule survivors_inside)
    have step: "nms_loop oks kp rois thresh order keep = nms_loop oks kp rois thresh ?order' (keep @ [i])"
    proof -
      have t: "take_rows kp [i] = Inr [kp ! i]" "take_rows rois [i] = Inr [rois ! i]"
          "take_rows kp rest = Inr (map ((!) kp) rest)" "take_rows rois rest = Inr (map ((!) rois) rest)"
        using i len rest restr by (simp_all add: take_rows_def)
      show ?thesis
        by (subst nms_loop.simps)
          (simp only: Cons list.distinct if_False nth_Cons_0 list.sel t sum.case ovr Let_def surv
             inside not_True_eq_False)
    qed
    have "length ?order' < length order" using Cons by (simp add: less_Suc_eq_le)
    moreover have "list_all (\<lambda>j. j < length kp) ?order'" using rest by (simp add: list_all_iff)
    ultimately have "nms_loop oks kp rois thresh ?order' (keep @ [i])
        = Inr ((keep @ [i]) @ greedy_suppress ?sim ?order')"
      by (rule less.hyps)
    with step show ?thesis by (simp add: Cons)
  qed
qed

lemma greedy_suppress_subset: "set (greedy_suppress similar xs) \<subseteq> set xs"
proof (induction similar xs rule: greedy_suppress.induct)
  case (1 similar)
  show ?case by simp
next
  case (2 similar i pending)
  have "set (filter (\<lambda>j. \<not> similar i j) pending) \<subseteq> set pending" by (rule filter_is_subset)
  with "2.IH" have "set (greedy_suppress similar (filter (\<lambda>j. \<not> similar i j) pending)) \<subseteq> set pending"
    by (rule subset_trans)
  then show ?case by (simp only: greedy_suppress.simps set_simps) blast
qed

lemma greedy_suppress_sorted:
  "sorted_wrt R xs \<Longrightarrow> sorted_wrt R (greedy_suppress similar xs)"
proof (induction similar xs rule: greedy_suppress.induct)
  case (1 similar)
  show ?case by (simp only: greedy_suppress.simps sorted_wrt.simps)
next
  case (2 similar i pending)
  let ?rest = "greedy_suppress similar (filter (\<lambda>j. \<not> similar i j) pending)"
  from "2.prems" have both: "(\<forall>x\<in>set pending. R i x) \<and> sorted_wrt R pending"
    by simp
  from both have head: "\<forall>x\<in>set pending. R i x" by (rule conjunct1)
  from both have tail: "sorted_wrt R pending" by (rule conjunct2)
  from tail have "sorted_wrt R (filter (\<lambda>j. \<not> similar i j) pending)" by (rule sorted_wrt_filter)
  then have srt: "sorted_wrt R ?rest"
    by (rule "2.IH")
  have "set ?rest \<subseteq> set (filter (\<lambda>j. \<not> similar i j) pending)"
    by (rule greedy_suppress_subset)
  also have "\<dots> \<subseteq> set pending" by (rule filter_is_subset)
  finally have "\<forall>x\<in>set ?rest. R i x" using head by blast
  with srt show ?case by (simp only: greedy_suppress.simps sorted_wrt.simps simp_thms)
qed

lemma greedy_suppress_dissimilar:
  "sorted_wrt (\<lambda>i j. \<not> similar i j) (greedy_suppress similar xs)"
proof (induction similar xs rule: greedy_suppress.induct)
  case (1 similar)
  show ?case by (simp only: greedy_suppress.simps sorted_wrt.simps)
next
  case (2 similar i pending)
  let ?rest = "greedy_suppress similar (filter (\<lambda>j. \<not> similar i j) pending)"
  have "set ?rest \<subseteq> set (filter (\<lambda>j. \<not> similar i j) pending)"
    by (rule greedy_suppress_subset)
  then have "\<forall>x\<in>set ?rest. \<not> similar i x" by auto
  with "2.IH" show ?case by (simp only: greedy_suppress.simps sorted_wrt.simps simp_thms)
qed

lemma greedy_suppress_cong:
  "(\<And>i j. similar i j = similar' i j) \<Longrightarrow> greedy_suppress similar xs = greedy_suppress similar' xs"
proof -
  assume "\<And>i j. similar i j = similar' i j"
  then have "similar = similar'" by (intro ext)
  then show ?thesis by (rule arg_cong)
qed

lemma length_two: "length xs = 2 \<Longrightarrow> \<exists>a b. xs = [a, b]"
  by (auto simp: numeral_2_eq_2 length_Suc_conv)

lemma np_sort_le_Fin [simp]: "np_sort_le (Fin a) (Fin b) = (a \<le> b)"
  by (simp add: np_sort_le_def)

text \<open>
  C6. Take \<open>N\<close> poses with their ROIs, each pose with a score channel, and any threshold.
  Let \<open>scores\<close> be the means that \<^verbatim>\<open>np.mean\<close> computes of the score channels, let
  \<^verbatim>\<open>argsort\<close> meet its contract on them, and let \<open>sim i j\<close> be the similarity that
  \<^verbatim>\<open>compute_oks\<close> computes for instance \<open>j\<close> against the kept instance \<open>i\<close>. Then
  \<^verbatim>\<open>nms_oks\<close> visits the instances in descending order of their mean score and returns
  exactly the greedy suppression of that order: keep the first pending instance, drop
  every pending instance whose similarity to it is not at most the threshold (the source's
  \<^verbatim>\<open>ovr <= thresh\<close> selects the survivors), repeat until none is pending. For numbers
  "not at most" is "exceeds"; a similarity or a threshold that is \<^verbatim>\<open>nan\<close> compares false
  and drops the instance. The kept list is in acceptance order (scores descending),
  every kept instance has a similarity of at most the threshold to each one kept before
  it, and of two poses whose similarity is at most the threshold both are kept. All
  comparisons are on the computed floating-point values, so a similarity that underflows
  to zero is compared as zero.
\<close>

theorem nms_oks_greedy:
  fixes kp_predictions :: array3 and rois :: "roi list" and thresh :: npfloat
    and np_mean :: "real list \<Rightarrow> npfloat" and argsort :: "npfloat list \<Rightarrow> nat list"
    and oks :: "array2 \<Rightarrow> roi \<Rightarrow> array3 \<Rightarrow> roi list \<Rightarrow> error + npfloat list"
    and sim :: "nat \<Rightarrow> nat \<Rightarrow> npfloat"
  defines "scores \<equiv> map (\<lambda>inst. np_mean (inst ! 2)) kp_predictions"
  defines "order \<equiv> rev (argsort scores)"
  defines "keep \<equiv> greedy_suppress (\<lambda>i j. \<not> np_le (sim i j) thresh) order"
  assumes rows: "list_all (\<lambda>inst. 2 < length inst) kp_predictions"
    and len: "length rois = length kp_predictions"
    and sort: "is_argsort argsort scores"
    and oks: "computes_pairwise oks kp_predictions rois sim"
  shows "sorted_wrt (\<lambda>i j. np_sort_le (scores ! j) (scores ! i)) order \<and>
         nms_oks np_mean argsort oks kp_predictions rois thresh = Inr keep \<and>
         sorted_wrt (\<lambda>i j. np_sort_le (scores ! j) (scores ! i)) keep \<and>
         sorted_wrt (\<lambda>i j. np_le (sim i j) thresh) keep \<and>
         (thresh \<noteq> NaN \<and> (\<forall>i j. sim i j \<noteq> NaN)
            \<longrightarrow> keep = greedy_suppress (\<lambda>i j. np_less thresh (sim i j)) order) \<and>
         (length kp_predictions = 2 \<and> np_le (sim (order ! 0) (order ! 1)) thresh
            \<longrightarrow> keep = order \<and> length order = 2)"
proof -
  from sort have dist: "distinct (argsort scores)"
    and idx: "set (argsort scores) = {0..<length scores}"
    and asc: "sorted_wrt (\<lambda>i j. np_sort_le (scores ! i) (scores ! j)) (argsort scores)"
    by (simp_all add: is_argsort_def)
  have n: "length scores = length kp_predictions" by (simp add: scores_def)
  have set_order: "set order = {0..<length kp_predictions}"
    using idx n by (simp add: order_def)
  have inside: "list_all (\<lambda>j. j < length kp_predictions) order"
    using set_order by (simp add: list_all_iff)
  have desc: "sorted_wrt (\<lambda>i j. np_sort_le (scores ! j) (scores ! i)) order"
    using asc by (simp add: order_def sorted_wrt_rev)
  have means: "mean_scores np_mean kp_predictions = Inr scores"
    using rows by (simp add: mean_scores_def scores_def)
  have run: "nms_oks np_mean argsort oks kp_predictions rois thresh = Inr keep"
    using nms_loop_greedy [OF len oks inside, of thresh "[]"]
    by (simp add: nms_oks_def means order_def keep_def)
  have keep_desc: "sorted_wrt (\<lambda>i j. np_sort_le (scores ! j) (scores ! i)) keep"
    unfolding keep_def using desc by (rule greedy_suppress_sorted)
  have "sorted_wrt (\<lambda>i j. \<not> \<not> np_le (sim i j) thresh) keep"
    unfolding keep_def by (rule greedy_suppress_dissimilar)
  then have apart: "sorted_wrt (\<lambda>i j. np_le (sim i j) thresh) keep"
    by simp
  have numbers: "thresh \<noteq> NaN \<and> (\<forall>i j. sim i j \<noteq> NaN)
      \<longrightarrow> keep = greedy_suppress (\<lambda>i j. np_less thresh (sim i j)) order"
  proof (intro impI)
    assume a: "thresh \<noteq> NaN \<and> (\<forall>i j. sim i j \<noteq> NaN)"
    show "keep = greedy_suppress (\<lambda>i j. np_less thresh (sim i j)) order"
      unfolding keep_def
    proof (rule greedy_suppress_cong)
      fix i j
      from a have "sim i j \<noteq> NaN" "thresh \<noteq> NaN" by simp_all
      then show "(\<not> np_le (sim i j) thresh) = np_less thresh (sim i j)" by (rule np_le_exceeds)
    qed
  qed
  have two: "length kp_predictions = 2 \<and> np_le (sim (order ! 0) (order ! 1)) thresh
      \<longrightarrow> keep = order \<and> length order = 2"
  proof (intro impI)
    assume both: "length kp_predictions = 2 \<and> np_le (sim (order ! 0) (order ! 1)) thresh"
    have "distinct order" using dist by (simp add: order_def)
    then have "length order = card (set order)" by (simp add: distinct_card)
    with set_order both have l2: "length order = 2" by simp
    then obtain a b where ab: "order = [a, b]"
      using length_two by blast
    from both l2 show "keep = order \<and> length order = 2"
      by (simp add: ab keep_def)
  qed
  from desc run keep_desc apart numbers two show ?thesis by (intro conjI)
qed

lemma oks_similarity_same_place:
  "cand ! 0 = src ! 0 \<Longrightarrow> cand ! 1 = src ! 1 \<Longrightarrow> oks_similarity src roi cand = 1"
  by (cases roi) (simp add: oks_similarity_def)

text \<open>
  Three poses at the same place with mean scores 1, 3 and 2. In exact arithmetic every
  similarity is 1: at threshold 1/2 only the best pose is kept, at threshold 1 all are,
  best first. With a \<^verbatim>\<open>compute_oks\<close> whose results are all zero (as for poses far apart,
  where the exponential underflows) and threshold 0 all are kept as well.
\<close>

theorem nms_oks_greedy_witness:
  "list_all (\<lambda>inst. 2 < length inst)
     [[replicate 17 0, replicate 17 0, replicate 17 1, replicate 17 0],
      [replicate 17 0, replicate 17 0, replicate 17 3, replicate 17 0],
      [replicate 17 0, replicate 17 0, replicate 17 2, replicate 17 (0::real)]] \<and>
   is_argsort stable_argsort
     (map (\<lambda>inst. exact_mean (inst ! 2))
        [[replicate 17 0, replicate 17 0, replicate 17 1, replicate 17 0],
         [replicate 17 0, replicate 17 0, replicate 17 3, replicate 17 0],
         [replicate 17 0, replicate 17 0, replicate 17 2, replicate 17 0]]) \<and>
   computes_pairwise compute_oks
     [[replicate 17 0, replicate 17 0, replicate 17 1, replicate 17 0],
      [replicate 17 0, replicate 17 0, replicate 17 3, replicate 17 0],
      [replicate 17 0, replicate 17 0, replicate 17 2, replicate 17 0]]
     [(0, 0, 10, 10), (0, 0, 10, 10), (0, 0, 10, 10)] (\<lambda>i j. Fin 1) \<and>
   nms_oks exact_mean stable_argsort compute_oks
     [[replicate 17 0, replicate 17 0, replicate 17 1, replicate 17 0],
      [replicate 17 0, replicate 17 0, replicate 17 3, replicate 17 0],
      [replicate 17 0, replicate 17 0, replicate 17 2, replicate 17 0]]
     [(0, 0, 10, 10), (0, 0, 10, 10), (0, 0, 10, 10)] (Fin (1 / 2)) = Inr [1] \<and>
   nms_oks exact_mean stable_argsort compute_oks
     [[replicate 17 0, replicate 17 0, replicate 17 1, replicate 17 0],
      [replicate 17 0, replicate 17 0, replicate 17 3, replicate 17 0],
      [replicate 17 0, replicate 17 0, replicate 17 2, replicate 17 0]]
     [(0, 0, 10, 10), (0, 0, 10, 10), (0, 0, 10, 10)] (Fin 1) = Inr [1, 2, 0] \<and>
   nms_oks exact_mean stable_argsort (\<lambda>src src_roi dst dst_roi. Inr (map (\<lambda>d. Fin 0) dst))
     [[replicate 17 0, replicate 17 0, replicate 17 1, replicate 17 0],
      [replicate 17 0, replicate 17 0, replicate 17 3, replicate 17 0],
      [replicate 17 0, replicate 17 0, replicate 17 2, replicate 17 0]]
     [(0, 0, 10, 10), (0, 0, 10, 10), (0, 0, 10, 10)] (Fin 0) = Inr [1, 2, 0]"
proof -
  let ?kp = "[[replicate 17 0, replicate 17 0, replicate 17 1, replicate 17 0],
              [replicate 17 0, replicate 17 0, replicate 17 3, replicate 17 0],
              [replicate 17 0, replicate 17 0, replicate 17 2, replicate 17 (0::real)]]"
  let ?rois = "[(0, 0, 10, 10), (0, 0, 10, 10), (0, 0, 10, 10)] :: roi list"
  let ?zero = "(\<lambda>src src_roi dst dst_roi. Inr (map (\<lambda>d. Fin 0) dst))
                 :: array2 \<Rightarrow> roi \<Rightarrow> array3 \<Rightarrow> roi list \<Rightarrow> error + npfloat list"
  have rows: "list_all (\<lambda>inst. 2 < length inst) ?kp" by simp
  have sh: "shape3 17 ?kp" by (simp add: shape3_def)
  have len: "length ?rois = length ?kp" by simp
  have areas: "list_all (\<lambda>(x1, y1, x2, y2). (x2 - x1 + 1) * (y2 - y1 + 1) + np_spacing_1 \<noteq> 0) ?rois"
    by (simp add: np_spacing_1_def)
  have scores: "map (\<lambda>inst. exact_mean (inst ! 2)) ?kp = [Fin 1, Fin 3, Fin 2]"
    by (simp add: exact_mean_def sum_list_replicate)
  have order: "stable_argsort [Fin 1, Fin 3, Fin 2] = [0, 2, 1]"
    by (simp add: stable_argsort_def upt_rec)
  have sort: "is_argsort stable_argsort (map (\<lambda>inst. exact_mean (inst ! 2)) ?kp)"
    unfolding is_argsort_def scores order by auto
  have same: "oks_similarity (?kp ! i) (?rois ! i) (?kp ! j) = 1" if "i < 3" "j < 3" for i j
    using that by (intro oks_similarity_same_place) (simp_all add: nth_Cons split: nat.split)
  have pw: "computes_pairwise compute_oks ?kp ?rois (\<lambda>i j. Fin 1)"
    unfolding computes_pairwise_def
  proof (intro allI impI)
    fix i pending
    assume a: "i < length ?kp \<and> list_all (\<lambda>j. j < length ?kp) pending"
    then have i: "i < 3" and p: "\<forall>j\<in>set pending. j < 3"
      by (auto simp: list_all_iff numeral_3_eq_3)
    have "compute_oks (?kp ! i) (?rois ! i) (map ((!) ?kp) pending) (map ((!) ?rois) pending)
        = Inr (map (\<lambda>j. Fin (oks_similarity (?kp ! i) (?rois ! i) (?kp ! j))) pending)"
      using compute_oks_pairwise [OF sh areas len] a unfolding computes_pairwise_def by blast
    also have "map (\<lambda>j. Fin (oks_similarity (?kp ! i) (?rois ! i) (?kp ! j))) pending
        = map (\<lambda>j. Fin 1) pending"
    proof (rule map_cong [OF refl])
      fix j assume "j \<in> set pending"
      with p have "j < 3" by blast
      with i show "Fin (oks_similarity (?kp ! i) (?rois ! i) (?kp ! j)) = Fin 1"
        by (simp only: same)
    qed
    finally show "compute_oks (?kp ! i) (?rois ! i) (map ((!) ?kp) pending) (map ((!) ?rois) pending)
        = Inr (map (\<lambda>j. Fin 1) pending)" .
  qed
  have pz: "computes_pairwise ?zero ?kp ?rois (\<lambda>i j. Fin 0)"
    by (simp add: computes_pairwise_def)
  have half: "nms_oks exact_mean stable_argsort compute_oks ?kp ?rois (Fin (1 / 2)) = Inr [1]"
    using nms_oks_greedy [OF rows len sort pw, of "Fin (1 / 2)", THEN conjunct2, THEN conjunct1,
      unfolded scores order]
    by simp
  have one: "nms_oks exact_mean stable_argsort compute_oks ?kp ?rois (Fin 1) = Inr [1, 2, 0]"
    using nms_oks_greedy [OF rows len sort pw, of "Fin 1", THEN conjunct2, THEN conjunct1,
      unfolded scores order]
    by simp
  have zero: "nms_oks exact_mean stable_argsort ?zero ?kp ?rois (Fin 0) = Inr [1, 2, 0]"
    using nms_oks_greedy [OF rows len sort pz, of "Fin 0", THEN conjunct2, THEN conjunct1,
      unfolded scores order]
    by simp
  from rows sort pw half one zero show ?thesis by (intro conjI)
qed
section \<open>The encoder on a degenerate ROI and on a boundary keypoint\<close>

text \<open>
  C1. The encoder does not clamp the extent of the ROI. For the ROI \<open>(0, 0, 0, 4)\<close> of
  width zero and a heatmap size of 56 the scale factor is the quotient \<open>56 / 0\<close>, that is
  \<^verbatim>\<open>inf\<close>, in single and in double precision, and the discrete x-coordinate of a keypoint
  at \<open>x = 1\<close> is \<^verbatim>\<open>inf\<close> as well.
\<close>

theorem encoder_scale_of_zero_width_roi:
  "to_format binary32 (np_sub (Fin 0) (Fin 0)) = Fin 0 \<and>
   roi_scale binary32 56 0 0 = PInf \<and> roi_scale binary64 56 0 0 = PInf \<and>
   discrete_coord binary32 56 1 0 0 = PInf"
  by (simp add: roi_scale_def discrete_coord_def float_eval)

text \<open>
  C8. One instance with one visible joint at \<open>(1, 1)\<close>, the ROI \<open>(0, 0, 0, 4)\<close> of width
  zero, heatmap size 56, single precision: the location is not valid, the weight is 0,
  and the label is \<^verbatim>\<open>nan\<close> (the product of \<^verbatim>\<open>lin_ind = inf\<close> with \<^verbatim>\<open>valid = 0\<close>).
\<close>

theorem invalid_label_of_zero_width_roi:
  "keypoints_to_heatmap_labels \<lparr>NUM_KEYPOINTS = 1, HEATMAP_SIZE = 56, INFERENCE_MIN_SIZE = 0\<rparr>
     binary32 binary32 [[[1], [1], [1]]] [(0, 0, 0, 4)] = Inr ([[NaN]], [[0]])"
  by (simp add: keypoints_to_heatmap_labels_def pair_rows_def encode_keypoint_def
      roi_scale_def discrete_coord_def float_eval)

section \<open>The argmax decoder\<close>
























section \<open>The calls in the module's own namespace\<close>

lemma cfg_unbound: "module_namespace ''cfg'' = None"
  by (simp add: module_namespace_def module_names_def)

lemma blob_utils_unbound: "module_namespace ''blob_utils'' = None"
  by (simp add: module_namespace_def module_names_def)

text \<open>
  C2. In the namespace of the module, whatever the arrays, both functions raise
  \<^verbatim>\<open>NameError\<close> for \<^verbatim>\<open>cfg\<close> and return nothing: the name is bound nowhere in the module
  and is no parameter of either function.
\<close>

theorem calls_raise_name_error:
  "heatmaps_to_keypoints_in module_namespace resize maps rois = Inl (NameError ''cfg'') \<and>
   keypoints_to_heatmap_labels_in module_namespace w keypoints rois = Inl (NameError ''cfg'')"
  by (simp add: heatmaps_to_keypoints_in_def keypoints_to_heatmap_labels_in_def read_cfg_def
      cfg_unbound)

text \<open>
  With a configuration bound to \<^verbatim>\<open>cfg\<close> alone the encoder gets as far as line 155 and
  raises \<^verbatim>\<open>NameError\<close> for \<^verbatim>\<open>blob_utils\<close>.
\<close>

lemma encoder_needs_blob_utils:
  "keypoints_to_heatmap_labels_in
     (module_namespace(''cfg'' \<mapsto> Config \<lparr>NUM_KEYPOINTS = 1, HEATMAP_SIZE = 56, INFERENCE_MIN_SIZE = 0\<rparr>))
     binary32 [[[1], [1], [1]]] [(0, 0, 4, 4)] = Inl (NameError ''blob_utils'')"
  by (simp add: keypoints_to_heatmap_labels_in_def read_cfg_def read_blob_utils_def
      blob_utils_unbound)
section \<open>The arrays a function writes\<close>

lemma joint_in_range_by_shape:
  "joint_in_range a j = list_all (list_all (\<lambda>n. j < n)) (shape_of a)"
  by (simp add: joint_in_range_def shape_of_def list_all_iff)

lemma joint_in_range_shape_of:
  "shape_of a = shape_of b \<Longrightarrow> joint_in_range a j = joint_in_range b j"
  by (simp only: joint_in_range_by_shape)

lemma shape_of_assign_joint:
  "shape_of dst = shape_of src \<Longrightarrow> shape_of (assign_joint dst d src s) = shape_of dst"
proof -
  assume same: "shape_of dst = shape_of src"
  then have n: "length dst = length src" by (metis length_map shape_of_def)
  have rows: "length (dst ! i) = length (src ! i)" if "i < length dst" for i
  proof -
    from same have "map (map length) dst ! i = map (map length) src ! i" by (simp add: shape_of_def)
    with that n have "map length (dst ! i) = map length (src ! i)" by simp
    then show ?thesis by (metis length_map)
  qed
  show ?thesis
    unfolding shape_of_def assign_joint_def
    by (rule nth_equalityI) (auto simp: n rows intro!: nth_equalityI)
qed

text \<open>
  The loop in the store does what the loop on the values does, and writes only
  \<^verbatim>\<open>flipped_kps\<close>.
\<close>

lemma swap_pairs_st_value:
  assumes "kc < length s" and "fk < length s" and "kc \<noteq> fk"
    and "shape_of (s ! fk) = shape_of (s ! kc)"
  shows "length (fst (swap_pairs_st keypoints pairs kc fk s)) = length s \<and>
         (\<forall>a. a \<noteq> fk \<longrightarrow> fst (swap_pairs_st keypoints pairs kc fk s) ! a = s ! a) \<and>
         (case swap_pairs keypoints pairs (s ! kc) (s ! fk) of
            Inl e \<Rightarrow> snd (swap_pairs_st keypoints pairs kc fk s) = Inl e
          | Inr r \<Rightarrow> snd (swap_pairs_st keypoints pairs kc fk s) = Inr () \<and>
                     fst (swap_pairs_st keypoints pairs kc fk s) ! fk = r)"
  using assms
proof (induction pairs arbitrary: s)
  case Nil
  then show ?case by simp
next
  case (Cons p pairs)
  obtain lkp rkp where p: "p = (lkp, rkp)" by (cases p) auto
  note kc = Cons.prems(1) and fk = Cons.prems(2) and ne = Cons.prems(3) and sh = Cons.prems(4)
  show ?case
  proof (cases "index_of keypoints lkp")
    case (Inl e)
    then show ?thesis by (simp add: p)
  next
    case lid: (Inr lid)
    show ?thesis
    proof (cases "index_of keypoints rkp")
      case (Inl e)
      then show ?thesis by (simp add: p lid)
    next
      case rid: (Inr rid)
      have jl: "joint_in_range (s ! fk) j = joint_in_range (s ! kc) j" for j
        by (rule joint_in_range_shape_of [OF sh])
      show ?thesis
      proof (cases "joint_in_range (s ! kc) rid \<and> joint_in_range (s ! kc) lid")
        case False
        then show ?thesis by (auto simp: p lid rid jl)
      next
        case True
        let ?a1 = "assign_joint (s ! fk) lid (s ! kc) rid"
        let ?s1 = "s[fk := ?a1]"
        let ?a2 = "assign_joint ?a1 rid (s ! kc) lid"
        let ?s2 = "?s1[fk := ?a2]"
        have sh1: "shape_of ?a1 = shape_of (s ! kc)"
          using shape_of_assign_joint [OF sh] sh by simp
        have sh2: "shape_of ?a2 = shape_of (s ! kc)"
          using shape_of_assign_joint [OF sh1] sh1 by simp
        have s1kc: "?s1 ! kc = s ! kc" and s1fk: "?s1 ! fk = ?a1"
          using ne fk by simp_all
        have j1: "joint_in_range ?a1 j = joint_in_range (s ! kc) j" for j
          by (rule joint_in_range_shape_of [OF sh1])
        have step: "swap_pairs_st keypoints (p # pairs) kc fk s = swap_pairs_st keypoints pairs kc fk ?s2"
          using True by (simp add: p lid rid jl Let_def s1kc s1fk j1)
        have pure: "swap_pairs keypoints (p # pairs) (s ! kc) (s ! fk)
            = swap_pairs keypoints pairs (s ! kc) ?a2"
          using True by (simp add: p lid rid)
        have kc2: "kc < length ?s2" and fk2: "fk < length ?s2" using kc fk by simp_all
        have s2kc: "?s2 ! kc = s ! kc" and s2fk: "?s2 ! fk = ?a2" using ne fk by simp_all
        have sh': "shape_of (?s2 ! fk) = shape_of (?s2 ! kc)" by (simp only: s2kc s2fk sh2)
        note IH = Cons.IH [OF kc2 fk2 ne sh']
        from IH have len: "length (fst (swap_pairs_st keypoints pairs kc fk ?s2)) = length s"
          by simp
        from IH have other: "\<forall>a. a \<noteq> fk \<longrightarrow> fst (swap_pairs_st keypoints pairs kc fk ?s2) ! a = s ! a"
          by simp
        from IH have res: "(case swap_pairs keypoints pairs (s ! kc) ?a2 of
            Inl e \<Rightarrow> snd (swap_pairs_st keypoints pairs kc fk ?s2) = Inl e
          | Inr r \<Rightarrow> snd (swap_pairs_st keypoints pairs kc fk ?s2) = Inr () \<and>
                     fst (swap_pairs_st keypoints pairs kc fk ?s2) ! fk = r)"
          by (simp only: s2kc s2fk)
        from len other res show ?thesis by (simp only: step pure)
      qed
    qed
  qed
qed

text \<open>
  \<^verbatim>\<open>flip_keypoints\<close> in the store: it allocates one array, leaves every array of the
  caller as it was, and the array it returns holds the value of \<open>flip_keypoints\<close>.
\<close>

lemma flip_keypoints_st_value:
  assumes kc: "kc < length s"
  shows "length (fst (flip_keypoints_st ar keypoints fm s kc width)) = length s + 1 \<and>
         (\<forall>a<length s. fst (flip_keypoints_st ar keypoints fm s kc width) ! a = s ! a) \<and>
         (case flip_keypoints ar keypoints fm (s ! kc) width of
            Inl e \<Rightarrow> snd (flip_keypoints_st ar keypoints fm s kc width) = Inl e
          | Inr r \<Rightarrow> snd (flip_keypoints_st ar keypoints fm s kc width) = Inr (length s) \<and>
                     fst (flip_keypoints_st ar keypoints fm s kc width) ! length s = r)"
proof -
  define s0 where "s0 = s @ [s ! kc]"
  define fk where "fk = length s"
  have kc0: "kc < length s0" and fk0: "fk < length s0" and ne: "kc \<noteq> fk"
    using kc by (simp_all add: s0_def fk_def)
  have at_kc: "s0 ! kc = s ! kc" and at_fk: "s0 ! fk = s ! kc"
    using kc by (simp_all add: s0_def fk_def nth_append)
  have sh: "shape_of (s0 ! fk) = shape_of (s0 ! kc)" by (simp only: at_kc at_fk)
  obtain s1 res where sw: "swap_pairs_st keypoints fm kc fk s0 = (s1, res)"
    by (cases "swap_pairs_st keypoints fm kc fk s0") auto
  note all = swap_pairs_st_value [OF kc0 fk0 ne sh, of keypoints fm,
      unfolded sw fst_conv snd_conv at_kc at_fk]
  from all have len1: "length s1 = length s0" by (rule conjunct1)
  from all have other: "\<forall>a. a \<noteq> fk \<longrightarrow> s1 ! a = s0 ! a" by (rule conjunct2 [THEN conjunct1])
  from all have val: "(case swap_pairs keypoints fm (s ! kc) (s ! kc) of
                 Inl e \<Rightarrow> res = Inl e
               | Inr r \<Rightarrow> res = Inr () \<and> s1 ! fk = r)"
    by (rule conjunct2 [THEN conjunct2])
  have old1: "\<forall>a<length s. s1 ! a = s ! a"
  proof (intro allI impI)
    fix a assume a: "a < length s"
    then have "a \<noteq> fk" by (simp add: fk_def)
    with other have "s1 ! a = s0 ! a" by blast
    with a show "s1 ! a = s ! a" by (simp add: s0_def nth_append)
  qed
  have len1': "length s1 = length s + 1" using len1 by (simp add: s0_def)
  have fk1: "fk < length s1" using len1' by (simp add: fk_def)
  have unfold: "flip_keypoints_st ar keypoints fm s kc width
      = (case res of
           Inl e \<Rightarrow> (s1, Inl e)
         | Inr u \<Rightarrow>
             (case mirror_x ar width (s1 ! fk) of
                Inl e \<Rightarrow> (s1, Inl e)
              | Inr mirrored \<Rightarrow>
                  (let s2 = s1[fk := mirrored]
                   in case zero_invisible ar (s2 ! fk) of
                        Inl e \<Rightarrow> (s2, Inl e)
                      | Inr zeroed \<Rightarrow> (s2[fk := zeroed], Inr fk))))"
    by (simp only: flip_keypoints_st_def allocate_def prod.case s0_def [symmetric]
        fk_def [symmetric] sw)
  show ?thesis
  proof (cases "swap_pairs keypoints fm (s ! kc) (s ! kc)")
    case (Inl e)
    with val have "res = Inl e" by simp
    then have "flip_keypoints_st ar keypoints fm s kc width = (s1, Inl e)"
      by (simp add: unfold)
    with len1' old1 Inl show ?thesis by (simp add: flip_keypoints_def)
  next
    case (Inr swapped)
    with val have res: "res = Inr ()" and s1fk: "s1 ! fk = swapped" by simp_all
    show ?thesis
    proof (cases "mirror_x ar width swapped")
      case (Inl e)
      then have "flip_keypoints_st ar keypoints fm s kc width = (s1, Inl e)"
        by (simp add: unfold res s1fk)
      with len1' old1 Inl Inr show ?thesis by (simp add: flip_keypoints_def)
    next
      case m: (Inr mirrored)
      define s2 where "s2 = s1[fk := mirrored]"
      have s2fk: "s2 ! fk = mirrored" using fk1 by (simp add: s2_def)
      have old2: "\<forall>a<length s. s2 ! a = s ! a"
        using old1 by (simp add: s2_def fk_def)
      have len2: "length s2 = length s + 1" using len1' by (simp add: s2_def)
      show ?thesis
      proof (cases "zero_invisible ar mirrored")
        case (Inl e)
        then have "flip_keypoints_st ar keypoints fm s kc width = (s2, Inl e)"
          by (simp add: unfold res s1fk m Let_def s2_def [symmetric] s2fk)
        with len2 old2 Inl Inr m show ?thesis by (simp add: flip_keypoints_def)
      next
        case z: (Inr zeroed)
        then have run: "flip_keypoints_st ar keypoints fm s kc width = (s2[fk := zeroed], Inr fk)"
          by (simp add: unfold res s1fk m Let_def s2_def [symmetric] s2fk)
        have "(s2[fk := zeroed]) ! length s = zeroed" using len2 by (simp add: fk_def)
        moreover have "\<forall>a<length s. (s2[fk := zeroed]) ! a = s ! a"
          using old2 by (simp add: fk_def)
        ultimately show ?thesis
          using len2 Inr m z by (simp add: run flip_keypoints_def fk_def)
      qed
    qed
  qed
qed

lemma map_length_update:
  "length ys = length (xs ! i) \<Longrightarrow> map length (xs[i := ys]) = map length xs"
proof -
  assume "length ys = length (xs ! i)"
  then have "map length (xs[i := ys]) = (map length xs)[i := length (xs ! i)]"
    by (simp add: map_update)
  also have "\<dots> = map length xs"
    by (cases "i < length xs") (simp_all add: list_update_same_conv list_update_beyond)
  finally show ?thesis .
qed

lemma shape_of_swap_pairs:
  "swap_pairs keypoints pairs orig flipped = Inr r \<Longrightarrow> shape_of flipped = shape_of orig
     \<Longrightarrow> shape_of r = shape_of orig"
proof (induction pairs arbitrary: flipped)
  case Nil
  then show ?case by simp
next
  case (Cons p pairs)
  obtain lkp rkp where p: "p = (lkp, rkp)" by (cases p) auto
  from Cons.prems(1) obtain lid rid where
    rec: "swap_pairs keypoints pairs orig
            (assign_joint (assign_joint flipped lid orig rid) rid orig lid) = Inr r"
    by (auto simp: p split: sum.splits if_splits)
  have "shape_of (assign_joint flipped lid orig rid) = shape_of orig"
    using shape_of_assign_joint [OF Cons.prems(2)] Cons.prems(2) by simp
  then have "shape_of (assign_joint (assign_joint flipped lid orig rid) rid orig lid) = shape_of orig"
    using shape_of_assign_joint [of "assign_joint flipped lid orig rid" orig rid lid] by simp
  with rec show ?case by (rule Cons.IH)
qed

text \<open>A flip keeps the shape of an array whose rows all have \<open>K\<close> joints.\<close>

lemma shape_of_flip_keypoints:
  assumes run: "flip_keypoints ar keypoints fm a width = Inr r"
    and rect: "list_all (list_all (\<lambda>row. length row = K)) a"
  shows "shape_of r = shape_of a"
proof -
  from run obtain swapped mirrored where
    sw: "swap_pairs keypoints fm a a = Inr swapped"
    and mi: "mirror_x ar width swapped = Inr mirrored"
    and ze: "zero_invisible ar mirrored = Inr r"
    by (auto simp: flip_keypoints_def split: sum.splits)
  have s1: "shape_of swapped = shape_of a" using sw by (rule shape_of_swap_pairs) simp
  from mi have mirrored: "mirrored = map (\<lambda>inst. inst[0 := map (mirror ar width) (inst ! 0)]) swapped"
    by (auto simp: mirror_x_def split: if_splits)
  have s2: "shape_of mirrored = shape_of swapped"
    unfolding mirrored shape_of_def
    by (simp add: map_length_update comp_def)
  from ze have r: "r = map (\<lambda>inst. inst[0 := map2 (\<lambda>x v. if a_is_zero ar v then a_zero ar else x)
                                          (inst ! 0) (inst ! 2)]) mirrored"
    and three: "list_all (\<lambda>inst. 2 < length inst) mirrored"
    by (auto simp: zero_invisible_def split: if_splits)
  have rows: "list_all (list_all (\<lambda>n. n = K)) (shape_of a)"
    using rect by (simp add: shape_of_def list_all_iff)
  then have "list_all (list_all (\<lambda>n. n = K)) (shape_of mirrored)" by (simp only: s1 s2)
  then have rectm: "list_all (list_all (\<lambda>row. length row = K)) mirrored"
    by (simp add: shape_of_def list_all_iff)
  have s3: "shape_of r = shape_of mirrored"
    unfolding shape_of_def
  proof (rule nth_equalityI)
    show "length (map (map length) r) = length (map (map length) mirrored)" by (simp add: r)
  next
    fix n assume "n < length (map (map length) r)"
    then have n: "n < length mirrored" by (simp add: r)
    let ?inst = "mirrored ! n"
    from three n have l: "2 < length ?inst" by (simp add: list_all_length)
    from rectm n have "list_all (\<lambda>row. length row = K) ?inst" by (simp add: list_all_length)
    then have every: "\<And>c. c < length ?inst \<Longrightarrow> length (?inst ! c) = K"
      by (simp add: list_all_length)
    from l have "0 < length ?inst" by arith
    with l every have "length (?inst ! 0) = K" "length (?inst ! 2) = K" by blast+
    then have "length (map2 (\<lambda>x v. if a_is_zero ar v then a_zero ar else x) (?inst ! 0) (?inst ! 2))
        = length (?inst ! 0)" by simp
    then have "map length (?inst[0 := map2 (\<lambda>x v. if a_is_zero ar v then a_zero ar else x)
                 (?inst ! 0) (?inst ! 2)]) = map length ?inst"
      by (rule map_length_update)
    with n show "map (map length) r ! n = map (map length) mirrored ! n" by (simp add: r)
  qed
  show ?thesis by (simp only: s3 s2 s1)
qed

lemma keeps_iff: "keeps n s s' \<longleftrightarrow> length s \<le> length s' \<and> (\<forall>a<n. s' ! a = s ! a)"
  by (auto simp: keeps_def list_all_iff)

lemma keeps_refl: "keeps n s s"
  by (simp add: keeps_iff)

lemma keeps_trans: "keeps n s s' \<Longrightarrow> keeps n s' s'' \<Longrightarrow> keeps n s s''"
  by (auto simp: keeps_iff)

lemma keeps_allocate: "n \<le> length s \<Longrightarrow> keeps n s (s @ [x])"
  by (simp add: keeps_iff nth_append)

lemma keeps_write: "n \<le> a \<Longrightarrow> keeps n s (s[a := x])"
  by (simp add: keeps_iff)

lemma softmax_channels_st_keeps:
  "n \<le> scores \<Longrightarrow> keeps n s (fst (softmax_channels_st cs scores s))"
proof (induction cs arbitrary: s)
  case Nil
  show ?case by (simp add: keeps_refl)
next
  case (Cons c cs)
  show ?case
  proof (cases "softmax_channel (get3 (s ! scores) ! c)")
    case (Inl e)
    then show ?thesis by (simp add: keeps_refl)
  next
    case (Inr temp)
    let ?s1 = "s[scores := A3 ((get3 (s ! scores))[c := temp])]"
    have "keeps n s ?s1" using Cons.prems by (rule keeps_write)
    moreover have "keeps n ?s1 (fst (softmax_channels_st cs scores ?s1))"
      using Cons.prems by (rule Cons.IH)
    ultimately have "keeps n s (fst (softmax_channels_st cs scores ?s1))" by (rule keeps_trans)
    then show ?thesis by (simp add: Inr)
  qed
qed

lemma scores_to_probs_st_keeps:
  "n \<le> scores \<Longrightarrow> keeps n s (fst (scores_to_probs_st scores s))"
proof -
  assume n: "n \<le> scores"
  have "fst (scores_to_probs_st scores s)
      = fst (softmax_channels_st [0..<length (get3 (s ! scores))] scores s)"
    by (simp add: scores_to_probs_st_def split: prod.split sum.split)
  with softmax_channels_st_keeps [OF n] show ?thesis by simp
qed

lemma decode_joints_st_keeps:
  "n \<le> xy_preds \<Longrightarrow>
   keeps n s (fst (decode_joints_st ks resized probs xy_preds i wc hc ox oy s))"
proof (induction ks arbitrary: s)
  case Nil
  show ?case by (simp add: keeps_refl)
next
  case (Cons k ks)
  show ?case
  proof (cases "decode_joint (hwc_to_chw (get3 (s ! resized))) (get3 (s ! probs)) wc hc ox oy k")
    case (Inl e)
    then show ?thesis by (simp add: keeps_refl)
  next
    case (Inr t)
    obtain x y score prob where t: "t = (x, y, score, prob)" by (cases t) auto
    let ?s1 = "s[xy_preds := A3 (set_entry (get3 (s ! xy_preds)) i 0 k x)]"
    let ?s2 = "?s1[xy_preds := A3 (set_entry (get3 (?s1 ! xy_preds)) i 1 k y)]"
    let ?s3 = "?s2[xy_preds := A3 (set_entry (get3 (?s2 ! xy_preds)) i 2 k score)]"
    let ?s4 = "?s3[xy_preds := A3 (set_entry (get3 (?s3 ! xy_preds)) i 3 k prob)]"
    note w = keeps_write [OF Cons.prems]
    have "keeps n s ?s4"
      by (rule keeps_trans [OF keeps_trans [OF keeps_trans [OF w w] w] w])
    moreover have "keeps n ?s4 (fst (decode_joints_st ks resized probs xy_preds i wc hc ox oy ?s4))"
      using Cons.prems by (rule Cons.IH)
    ultimately have "keeps n s (fst (decode_joints_st ks resized probs xy_preds i wc hc ox oy ?s4))"
      by (rule keeps_trans)
    then show ?thesis by (simp add: Inr t Let_def)
  qed
qed

lemma decode_instance_st_keeps:
  assumes n: "n \<le> length s" and xy: "n \<le> xy_preds"
  shows "keeps n s (fst (decode_instance_st cfg resize maps xy_preds i r s))"
proof -
  obtain x1 y1 x2 y2 where r: "r = (x1, y1, x2, y2)" by (cases r) auto
  show ?thesis
  proof (cases "length (get4 (s ! maps)) \<le> i")
    case True
    then show ?thesis by (simp add: decode_instance_st_def r keeps_refl)
  next
    case False
    define wc where "wc = clamped_extent x1 x2 / of_int (roi_map_size (INFERENCE_MIN_SIZE cfg) x1 x2)"
    define hc where "hc = clamped_extent y1 y2 / of_int (roi_map_size (INFERENCE_MIN_SIZE cfg) y1 y2)"
    define s1 where "s1 = s @ [A3 (resize (chw_to_hwc (get4 (s ! maps) ! i))
                 (nat (roi_map_size (INFERENCE_MIN_SIZE cfg) x1 x2))
                 (nat (roi_map_size (INFERENCE_MIN_SIZE cfg) y1 y2)))]"
    define s2 where "s2 = s1 @ [A3 (hwc_to_chw (get3 (s1 ! length s)))]"
    obtain s3 res where sp: "scores_to_probs_st (length s1) s2 = (s3, res)"
      by (cases "scores_to_probs_st (length s1) s2") auto
    have k1: "keeps n s s1" unfolding s1_def using n by (rule keeps_allocate)
    have n1: "n \<le> length s1" using n by (simp add: s1_def)
    have k2: "keeps n s1 s2" unfolding s2_def using n1 by (rule keeps_allocate)
    have "keeps n s2 (fst (scores_to_probs_st (length s1) s2))"
      using n1 by (rule scores_to_probs_st_keeps)
    then have k3: "keeps n s2 s3" by (simp only: sp fst_conv)
    have k123: "keeps n s s3" by (rule keeps_trans [OF keeps_trans [OF k1 k2] k3])
    have unfold: "decode_instance_st cfg resize maps xy_preds i r s
        = (case scores_to_probs_st (length s1) s2 of
             (s3, Inl e) \<Rightarrow> (s3, Inl e)
           | (s3, Inr probs) \<Rightarrow>
               decode_joints_st [0..<NUM_KEYPOINTS cfg] (length s) probs xy_preds i wc hc x1 y1 s3)"
      using False
      by (simp only: decode_instance_st_def r prod.case Let_def if_False allocate_def
          s1_def [symmetric] s2_def [symmetric] wc_def [symmetric] hc_def [symmetric])
    show ?thesis
    proof (cases res)
      case (Inl e)
      then have "fst (decode_instance_st cfg resize maps xy_preds i r s) = s3"
        by (simp only: unfold sp prod.case sum.case fst_conv)
      with k123 show ?thesis by (simp only:)
    next
      case (Inr probs)
      then have e: "fst (decode_instance_st cfg resize maps xy_preds i r s)
          = fst (decode_joints_st [0..<NUM_KEYPOINTS cfg] (length s) probs xy_preds i wc hc x1 y1 s3)"
        by (simp only: unfold sp prod.case sum.case)
      have "keeps n s3
          (fst (decode_joints_st [0..<NUM_KEYPOINTS cfg] (length s) probs xy_preds i wc hc x1 y1 s3))"
        using xy by (rule decode_joints_st_keeps)
      with k123 have "keeps n s
          (fst (decode_joints_st [0..<NUM_KEYPOINTS cfg] (length s) probs xy_preds i wc hc x1 y1 s3))"
        by (rule keeps_trans)
      then show ?thesis by (simp only: e)
    qed
  qed
qed

lemma keeps_length: "keeps n s s' \<Longrightarrow> n \<le> length s \<Longrightarrow> n \<le> length s'"
  by (simp add: keeps_iff)

lemma decode_instances_st_keeps:
  "n \<le> length s \<Longrightarrow> n \<le> xy_preds \<Longrightarrow>
   keeps n s (fst (decode_instances_st cfg resize maps xy_preds rois is s))"
proof (induction "is" arbitrary: s)
  case Nil
  show ?case by (simp add: keeps_refl)
next
  case (Cons i rest)
  obtain s1 res where r: "decode_instance_st cfg resize maps xy_preds i (rois ! i) s = (s1, res)"
    by (cases "decode_instance_st cfg resize maps xy_preds i (rois ! i) s") auto
  have "keeps n s (fst (decode_instance_st cfg resize maps xy_preds i (rois ! i) s))"
    using Cons.prems by (rule decode_instance_st_keeps)
  then have k1: "keeps n s s1" by (simp add: r)
  show ?case
  proof (cases res)
    case (Inl e)
    then have "fst (decode_instances_st cfg resize maps xy_preds rois (i # rest) s) = s1"
      by (simp add: r)
    with k1 show ?thesis by simp
  next
    case (Inr u)
    then have e: "fst (decode_instances_st cfg resize maps xy_preds rois (i # rest) s)
        = fst (decode_instances_st cfg resize maps xy_preds rois rest s1)"
      by (simp add: r)
    have "n \<le> length s1" using k1 Cons.prems(1) by (rule keeps_length)
    then have "keeps n s1 (fst (decode_instances_st cfg resize maps xy_preds rois rest s1))"
      using Cons.prems(2) by (rule Cons.IH)
    with k1 have "keeps n s (fst (decode_instances_st cfg resize maps xy_preds rois rest s1))"
      by (rule keeps_trans)
    then show ?thesis by (simp only: e)
  qed
qed

lemma heatmaps_to_keypoints_st_keeps:
  "keeps (length s) s (fst (heatmaps_to_keypoints_st cfg resize s maps rois)) \<and>
   (\<forall>p. snd (heatmaps_to_keypoints_st cfg resize s maps rois) = Inr p \<longrightarrow> p = length s)"
proof -
  let ?s0 = "s @ [A3 (replicate (length rois) (replicate 4 (replicate (NUM_KEYPOINTS cfg) 0)))]"
  let ?r = "decode_instances_st cfg resize maps (length s) rois [0..<length rois] ?s0"
  have e: "fst (heatmaps_to_keypoints_st cfg resize s maps rois) = fst ?r"
    by (simp add: heatmaps_to_keypoints_st_def allocate_def split: prod.split sum.split)
  have "keeps (length s) s ?s0" by (rule keeps_allocate) simp
  moreover have "keeps (length s) ?s0 (fst ?r)" by (rule decode_instances_st_keeps) simp_all
  ultimately have "keeps (length s) s (fst ?r)" by (rule keeps_trans)
  moreover have "\<forall>p. snd (heatmaps_to_keypoints_st cfg resize s maps rois) = Inr p \<longrightarrow> p = length s"
    by (auto simp: heatmaps_to_keypoints_st_def allocate_def split: prod.splits sum.splits)
  ultimately show ?thesis by (simp only: e)
qed

lemma softmax_channels_st_writes:
  "length (fst (softmax_channels_st cs scores s)) = length s \<and>
   (\<forall>a. a \<noteq> scores \<longrightarrow> fst (softmax_channels_st cs scores s) ! a = s ! a)"
proof (induction cs arbitrary: s)
  case Nil
  show ?case by simp
next
  case (Cons c cs)
  show ?case
  proof (cases "softmax_channel (get3 (s ! scores) ! c)")
    case (Inl e)
    then show ?thesis by simp
  next
    case (Inr temp)
    let ?s1 = "s[scores := A3 ((get3 (s ! scores))[c := temp])]"
    from Cons.IH [of ?s1] show ?thesis by (simp add: Inr)
  qed
qed

text \<open>The in-place softmax writes the array it is given and no other.\<close>

lemma scores_to_probs_st_writes:
  "length (fst (scores_to_probs_st scores s)) = length s \<and>
   (\<forall>a. a \<noteq> scores \<longrightarrow> fst (scores_to_probs_st scores s) ! a = s ! a)"
proof -
  have "fst (scores_to_probs_st scores s)
      = fst (softmax_channels_st [0..<length (get3 (s ! scores))] scores s)"
    by (simp add: scores_to_probs_st_def split: prod.split sum.split)
  with softmax_channels_st_writes [of "[0..<length (get3 (s ! scores))]" scores s]
  show ?thesis by simp
qed

text \<open>
  C10. Let the caller's arrays be in a store, the keypoint array (with rows of \<open>K\<close>
  joints) at \<open>keypoint_coords\<close> and the heatmaps at \<open>maps\<close>. \<^verbatim>\<open>flip_keypoints\<close> leaves a store
  with one array more in which every array of the caller, the input among them, is as
  it was; the array it returns is the new one, holds the flipped keypoints and has the
  shape of the input. \<^verbatim>\<open>heatmaps_to_keypoints\<close> leaves every array of the caller, the
  heatmaps among them, as it was, whether it returns or raises, and the array it returns
  is a new one; the in-place softmax of \<^verbatim>\<open>scores_to_probs\<close> writes only the array it is
  called on, which the decoder allocates by \<^verbatim>\<open>roi_map.copy()\<close>.
\<close>

theorem inputs_are_not_mutated:
  fixes s :: "'a list list list list" and t :: "ndarray list"
  assumes kc: "keypoint_coords < length s"
    and rect: "list_all (list_all (\<lambda>row. length row = K)) (s ! keypoint_coords)"
    and mp: "maps < length t"
  shows "length (fst (flip_keypoints_st ar keypoints fm s keypoint_coords width)) = length s + 1 \<and>
         keeps (length s) s (fst (flip_keypoints_st ar keypoints fm s keypoint_coords width)) \<and>
         fst (flip_keypoints_st ar keypoints fm s keypoint_coords width) ! keypoint_coords
           = s ! keypoint_coords \<and>
         (\<forall>r. snd (flip_keypoints_st ar keypoints fm s keypoint_coords width) = Inr r \<longrightarrow>
            r = length s \<and>
            flip_keypoints ar keypoints fm (s ! keypoint_coords) width
              = Inr (fst (flip_keypoints_st ar keypoints fm s keypoint_coords width) ! r) \<and>
            shape_of (fst (flip_keypoints_st ar keypoints fm s keypoint_coords width) ! r)
              = shape_of (s ! keypoint_coords)) \<and>
         keeps (length t) t (fst (heatmaps_to_keypoints_st cfg resize t maps rois)) \<and>
         fst (heatmaps_to_keypoints_st cfg resize t maps rois) ! maps = t ! maps \<and>
         (\<forall>p. snd (heatmaps_to_keypoints_st cfg resize t maps rois) = Inr p \<longrightarrow> p = length t) \<and>
         (\<forall>scores a. a \<noteq> scores \<longrightarrow> fst (scores_to_probs_st scores t) ! a = t ! a)"
proof -
  let ?F = "flip_keypoints_st ar keypoints fm s keypoint_coords width"
  let ?D = "heatmaps_to_keypoints_st cfg resize t maps rois"
  note fv = flip_keypoints_st_value [OF kc, of ar keypoints fm width]
  from fv have len: "length (fst ?F) = length s + 1" by (rule conjunct1)
  from fv have old: "\<forall>a<length s. fst ?F ! a = s ! a" by (rule conjunct2 [THEN conjunct1])
  from fv have val: "(case flip_keypoints ar keypoints fm (s ! keypoint_coords) width of
            Inl e \<Rightarrow> snd ?F = Inl e
          | Inr r \<Rightarrow> snd ?F = Inr (length s) \<and> fst ?F ! length s = r)"
    by (rule conjunct2 [THEN conjunct2])
  from len old have keepsF: "keeps (length s) s (fst ?F)" by (simp add: keeps_iff)
  from old kc have input: "fst ?F ! keypoint_coords = s ! keypoint_coords" by blast
  have ret: "\<forall>r. snd ?F = Inr r \<longrightarrow>
            r = length s \<and>
            flip_keypoints ar keypoints fm (s ! keypoint_coords) width = Inr (fst ?F ! r) \<and>
            shape_of (fst ?F ! r) = shape_of (s ! keypoint_coords)"
  proof (intro allI impI)
    fix r assume r: "snd ?F = Inr r"
    show "r = length s \<and>
            flip_keypoints ar keypoints fm (s ! keypoint_coords) width = Inr (fst ?F ! r) \<and>
            shape_of (fst ?F ! r) = shape_of (s ! keypoint_coords)"
    proof (cases "flip_keypoints ar keypoints fm (s ! keypoint_coords) width")
      case (Inl e)
      with val r show ?thesis by simp
    next
      case (Inr v)
      with val r have rl: "r = length s" and at: "fst ?F ! length s = v" by simp_all
      from Inr rect have "shape_of v = shape_of (s ! keypoint_coords)"
        by (rule shape_of_flip_keypoints)
      with rl at Inr show ?thesis by simp
    qed
  qed
  note dk = heatmaps_to_keypoints_st_keeps [of t cfg resize maps rois]
  from dk have keepsD: "keeps (length t) t (fst ?D)" by (rule conjunct1)
  from dk have fresh: "\<forall>p. snd ?D = Inr p \<longrightarrow> p = length t" by (rule conjunct2)
  from keepsD mp have heat: "fst ?D ! maps = t ! maps" by (simp add: keeps_iff)
  have soft: "\<forall>scores a. a \<noteq> scores \<longrightarrow> fst (scores_to_probs_st scores t) ! a = t ! a"
    using scores_to_probs_st_writes [of _ t] by blast
  from len keepsF input ret keepsD heat fresh soft show ?thesis by (intro conjI)
qed

text \<open>
  An integer keypoint array of one instance with three joints and a heatmap stack of one
  joint on a 2 x 2 grid, each the only array of its store.
\<close>

theorem inputs_are_not_mutated_witness:
  "(0 :: nat) < length [[[[1, 2, 3], [4, 5, 6], [1, 1, 0 :: int]]]] \<and>
   list_all (list_all (\<lambda>row. length row = 3)) ([[[[1, 2, 3], [4, 5, 6], [1, 1, 0 :: int]]]] ! 0) \<and>
   (0 :: nat) < length [A4 [[[[1, 3], [2, 0]]]]] \<and>
   flip_keypoints_st int_arith [''nose'', ''left_eye'', ''right_eye''] [(''left_eye'', ''right_eye'')]
     [[[[1, 2, 3], [4, 5, 6], [1, 1, 0]]]] 0 10
     = ([[[[1, 2, 3], [4, 5, 6], [1, 1, 0]]], [[[8, 0, 7], [4, 6, 5], [1, 0, 1]]]], Inr 1) \<and>
   fst (flip_keypoints_st int_arith [''nose'', ''left_eye'', ''right_eye''] [(''left_eye'', ''right_eye'')]
          [[[[1, 2, 3], [4, 5, 6], [1, 1, 0]]]] 0 10) ! 0 = [[[1, 2, 3], [4, 5, 6], [1, 1, 0]]] \<and>
   fst (heatmaps_to_keypoints_st \<lparr>NUM_KEYPOINTS = 1, HEATMAP_SIZE = 56, INFERENCE_MIN_SIZE = 0\<rparr>
          (\<lambda>m w h. m) [A4 [[[[1, 3], [2, 0]]]]] 0 [(0, 0, 2, 2)]) ! 0 = A4 [[[[1, 3], [2, 0]]]]"
proof -
  let ?s = "[[[[1, 2, 3], [4, 5, 6], [1, 1, 0 :: int]]]]"
  let ?t = "[A4 [[[[1, 3], [2, 0]]]]]"
  have kc: "(0 :: nat) < length ?s" by simp
  have rect: "list_all (list_all (\<lambda>row. length row = 3)) (?s ! 0)" by simp
  have mp: "(0 :: nat) < length ?t" by simp
  note here = inputs_are_not_mutated [OF kc rect mp, of int_arith
      "[''nose'', ''left_eye'', ''right_eye'']" "[(''left_eye'', ''right_eye'')]" 10
      "\<lparr>NUM_KEYPOINTS = 1, HEATMAP_SIZE = 56, INFERENCE_MIN_SIZE = 0\<rparr>" "\<lambda>m w h. m" "[(0, 0, 2, 2)]"]
  have run: "flip_keypoints_st int_arith [''nose'', ''left_eye'', ''right_eye'']
       [(''left_eye'', ''right_eye'')] ?s 0 10
     = ([[[[1, 2, 3], [4, 5, 6], [1, 1, 0]]], [[[8, 0, 7], [4, 6, 5], [1, 0, 1]]]], Inr 1)"
    by (simp add: flip_keypoints_st_def allocate_def joint_in_range_def assign_joint_def
        mirror_x_def mirror_def zero_invisible_def int_arith_def Let_def)
  from here have same: "fst (flip_keypoints_st int_arith [''nose'', ''left_eye'', ''right_eye'']
       [(''left_eye'', ''right_eye'')] ?s 0 10) ! 0 = [[[1, 2, 3], [4, 5, 6], [1, 1, 0]]]"
    by simp
  from here have heat: "fst (heatmaps_to_keypoints_st
       \<lparr>NUM_KEYPOINTS = 1, HEATMAP_SIZE = 56, INFERENCE_MIN_SIZE = 0\<rparr>
          (\<lambda>m w h. m) ?t 0 [(0, 0, 2, 2)]) ! 0 = A4 [[[[1, 3], [2, 0]]]]"
    by simp
  from kc rect mp run same heat show ?thesis by (intro conjI)
qed
end
